theory Spec2Isabelle
  imports Complex_Main "HOL-Library.Multiset" "HOL-Library.Sublist"
    "HOL-Library.Product_Lexorder"
begin

section \<open>JavaScript strings, as far as the retrieval core uses them\<close>

text \<open>
  A JavaScript string is a sequence of UTF-16 code units and \<open>length\<close> counts them.
  The model uses \<^typ>\<open>string\<close>: one \<^typ>\<open>char\<close> per code unit, restricted to the
  code units below 256. Indices, sizes and character budgets are JavaScript numbers that
  hold integers; they are modelled as \<^typ>\<open>int\<close>.
\<close>

definition is_ws :: "char \<Rightarrow> bool" where
  \<comment> \<open>the white space and line terminators of \<open>String.prototype.trim\<close> below 256:
      TAB, LF, VT, FF, CR, SP, NBSP\<close>
  "is_ws c = (of_char c \<in> {9, 10, 11, 12, 13, 32, 160 :: nat})"

definition trim :: "string \<Rightarrow> string" where
  "trim s = rev (dropWhile is_ws (rev (dropWhile is_ws s)))"

definition clamp_index :: "string \<Rightarrow> int \<Rightarrow> nat" where
  \<comment> \<open>\<open>substring\<close> treats a negative argument as 0 and one beyond the end as the length\<close>
  "clamp_index s i = (if i < 0 then 0 else min (nat i) (length s))"

definition substring :: "string \<Rightarrow> int \<Rightarrow> int \<Rightarrow> string" where
  \<comment> \<open>\<open>s.substring(a, b)\<close>: both arguments clamped, then swapped when \<open>a > b\<close>\<close>
  "substring s a b =
     (let a' = clamp_index s a; b' = clamp_index s b;
          lo = min a' b'; hi = max a' b'
      in take (hi - lo) (drop lo s))"

section \<open>JavaScript numbers: IEEE 754 binary64\<close>

text \<open>
  A number is \<open>NaN\<close>, one of the two infinities, or a finite value. Every arithmetic
  operation computes the exact real result and rounds it to the nearest binary64 value,
  ties to even, overflowing to an infinity and underflowing gradually to zero. The two
  zeros are one value here: they compare equal, and the code below divides by a zero only
  where the zero is the underflow of a product of two positive numbers, that is \<open>+0\<close>.
\<close>

datatype jsnum = NaN | PInf | NInf | Fin real

definition round_even :: "real \<Rightarrow> int" where
  \<comment> \<open>the nearest integer, a tie going to the even one\<close>
  "round_even y =
     (let f = \<lfloor>y\<rfloor>; d = y - of_int f
      in if d < 1 / 2 then f else if 1 / 2 < d then f + 1 else if even f then f else f + 1)"

definition binade :: "real \<Rightarrow> int" where
  \<comment> \<open>the exponent of the binade of \<open>x\<close>; below \<open>2\<^sup>-\<^sup>1\<^sup>0\<^sup>2\<^sup>2\<close> the subnormal spacing applies\<close>
  "binade x = max \<lfloor>log 2 \<bar>x\<bar>\<rfloor> (- 1022)"

definition to_double :: "real \<Rightarrow> jsnum" where
  \<comment> \<open>round to nearest, ties to even, with 53 significant bits; from
      \<open>2\<^sup>1\<^sup>0\<^sup>2\<^sup>4 - 2\<^sup>9\<^sup>7\<^sup>0\<close> on (the largest finite value plus half a unit in its last
      place) the result is an infinity\<close>
  "to_double x =
     (if x = 0 then Fin 0
      else if 2 ^ 1024 - 2 ^ 970 \<le> \<bar>x\<bar> then (if 0 < x then PInf else NInf)
      else (let ulp = 2 powr of_int (binade x - 52)
            in Fin (ulp * of_int (round_even (x / ulp)))))"

fun js_add :: "jsnum \<Rightarrow> jsnum \<Rightarrow> jsnum" where
  "js_add NaN b = NaN"
| "js_add a NaN = NaN"
| "js_add PInf NInf = NaN"
| "js_add NInf PInf = NaN"
| "js_add PInf b = PInf"
| "js_add a PInf = PInf"
| "js_add NInf b = NInf"
| "js_add a NInf = NInf"
| "js_add (Fin x) (Fin y) = to_double (x + y)"

definition signed_inf :: "bool \<Rightarrow> jsnum" where
  "signed_inf positive = (if positive then PInf else NInf)"

fun js_mul :: "jsnum \<Rightarrow> jsnum \<Rightarrow> jsnum" where
  "js_mul NaN b = NaN"
| "js_mul a NaN = NaN"
| "js_mul (Fin x) (Fin y) = to_double (x * y)"
| "js_mul (Fin x) PInf = (if x = 0 then NaN else signed_inf (0 < x))"
| "js_mul (Fin x) NInf = (if x = 0 then NaN else signed_inf (x < 0))"
| "js_mul PInf (Fin y) = (if y = 0 then NaN else signed_inf (0 < y))"
| "js_mul NInf (Fin y) = (if y = 0 then NaN else signed_inf (y < 0))"
| "js_mul PInf PInf = PInf"
| "js_mul NInf NInf = PInf"
| "js_mul PInf NInf = NInf"
| "js_mul NInf PInf = NInf"

fun js_div :: "jsnum \<Rightarrow> jsnum \<Rightarrow> jsnum" where
  "js_div NaN b = NaN"
| "js_div a NaN = NaN"
| "js_div (Fin x) (Fin y) =
     (if y = 0 then (if x = 0 then NaN else signed_inf (0 < x)) else to_double (x / y))"
| "js_div (Fin x) PInf = Fin 0"
| "js_div (Fin x) NInf = Fin 0"
| "js_div PInf (Fin y) = signed_inf (0 \<le> y)"
| "js_div NInf (Fin y) = signed_inf (y < 0)"
| "js_div a b = NaN"

fun js_sqrt :: "jsnum \<Rightarrow> jsnum" where
  "js_sqrt NaN = NaN"
| "js_sqrt PInf = PInf"
| "js_sqrt NInf = NaN"
| "js_sqrt (Fin x) = (if x < 0 then NaN else to_double (sqrt x))"

fun js_lt :: "jsnum \<Rightarrow> jsnum \<Rightarrow> bool" where
  "js_lt NaN b = False"
| "js_lt a NaN = False"
| "js_lt PInf b = False"
| "js_lt a NInf = False"
| "js_lt NInf b = True"
| "js_lt a PInf = True"
| "js_lt (Fin x) (Fin y) = (x < y)"

definition js_gt :: "jsnum \<Rightarrow> jsnum \<Rightarrow> bool" where
  "js_gt a b = js_lt b a"

definition js_ge :: "jsnum \<Rightarrow> jsnum \<Rightarrow> bool" where
  "js_ge a b = (js_lt b a \<or> a = b \<and> a \<noteq> NaN)"

section \<open>Chunker: \<open>chunkText\<close>\<close>

record TextChunk =
  index :: nat
  chunk_text :: string
  tokenCount :: nat

definition le_last_index :: "int \<Rightarrow> TextChunk list \<Rightarrow> bool" where
  \<comment> \<open>\<open>startIndex <= chunks[chunks.length - 1]?.index\<close>: with no chunk yet the right-hand
      side is \<open>undefined\<close> and the comparison is false\<close>
  "le_last_index startIndex chunks =
     (case chunks of [] \<Rightarrow> False | _ \<Rightarrow> startIndex \<le> int (index (last chunks)))"

definition push_chunk :: "TextChunk list \<Rightarrow> nat \<Rightarrow> string \<Rightarrow> TextChunk list" where
  "push_chunk chunks chunkIndex piece =
     chunks @ [\<lparr>index = chunkIndex, chunk_text = piece, tokenCount = length piece\<rparr>]"

text \<open>
  The \<open>while (startIndex < text.length)\<close> loop, with the local variables \<open>startIndex\<close>,
  \<open>chunks\<close> and \<open>chunkIndex\<close> passed as arguments. The loop need not end, so the result
  is an option: \<open>None\<close> stands for a run that never returns.
\<close>

partial_function (option) chunk_loop ::
  "string \<Rightarrow> int \<Rightarrow> int \<Rightarrow> int \<Rightarrow> TextChunk list \<Rightarrow> nat \<Rightarrow> TextChunk list option" where
  "chunk_loop trimmed chunkSize overlap startIndex chunks chunkIndex =
     (if startIndex < int (length trimmed) then
        (let endIndex = min (startIndex + chunkSize) (int (length trimmed));
             piece = trim (substring trimmed startIndex endIndex);
             chunks' = (if piece \<noteq> [] then push_chunk chunks chunkIndex piece else chunks);
             chunkIndex' = (if piece \<noteq> [] then chunkIndex + 1 else chunkIndex)
         in if endIndex = int (length trimmed) then Some chunks'
            else (let moved = endIndex - overlap;
                      startIndex' =
                        (if le_last_index moved chunks' \<or> moved < 0 then endIndex else moved)
                  in chunk_loop trimmed chunkSize overlap startIndex' chunks' chunkIndex'))
      else Some chunks)"

definition chunkText :: "string \<Rightarrow> int \<Rightarrow> int \<Rightarrow> TextChunk list option" where
  "chunkText input chunkSize overlap =
     (let trimmed = trim input
      in if trimmed = [] then Some [] else chunk_loop trimmed chunkSize overlap 0 [] 0)"

section \<open>Vector ranker: \<open>cosine\<close> and \<open>rankByCosine\<close>\<close>

text \<open>
  A vector is an array of numbers, \<open>number[]\<close>: its entries may be any number, the
  infinities and \<open>NaN\<close> included.
\<close>

definition sum_products :: "jsnum list \<Rightarrow> jsnum list \<Rightarrow> jsnum" where
  \<comment> \<open>\<open>let s = 0; for (i ...) s += a[i] * b[i]\<close>, over arrays of equal length\<close>
  "sum_products a b = foldl (\<lambda>s (x, y). js_add s (js_mul x y)) (Fin 0) (zip a b)"

definition cosine :: "jsnum list \<Rightarrow> jsnum list \<Rightarrow> jsnum" where
  "cosine a b =
     (if length a \<noteq> length b then Fin 0
      else if length a = 0 then Fin 0
      else (let dotProduct = sum_products a b;
                normA = js_sqrt (sum_products a a);
                normB = js_sqrt (sum_products b b)
            in if normA = Fin 0 \<or> normB = Fin 0 then Fin 0
               else js_div dotProduct (js_mul normA normB)))"

record VectorItem =
  item_id :: int
  vector :: "jsnum list"
  docId :: int
  item_chunkIndex :: int
  item_filename :: string
  item_text :: string

record Ranked = VectorItem +
  similarity :: jsnum

datatype js_error = TypeError

definition with_similarity :: "VectorItem \<Rightarrow> jsnum \<Rightarrow> Ranked" where
  \<comment> \<open>the object literal \<open>{ ...item, similarity }\<close>\<close>
  "with_similarity item s =
     \<lparr>item_id = item_id item, vector = vector item, docId = docId item,
      item_chunkIndex = item_chunkIndex item, item_filename = item_filename item,
      item_text = item_text item, similarity = s\<rparr>"

definition query_norm :: "jsnum list \<Rightarrow> jsnum" where
  "query_norm query = js_sqrt (sum_products query query)"

text \<open>
  The inner loop \<open>for (j = 0; j < query.length; j++)\<close> accumulates \<open>dotProduct\<close> and
  \<open>itemNorm\<close> together, reading \<open>item.vector[j]\<close> without a bounds check. Past the end of
  \<open>item.vector\<close> the read is \<open>undefined\<close>, which is \<open>NaN\<close> in a product. Entries of
  \<open>item.vector\<close> beyond \<open>query.length\<close> are never read.
\<close>

fun dot_and_norm :: "jsnum list \<Rightarrow> jsnum list \<Rightarrow> jsnum \<times> jsnum \<Rightarrow> jsnum \<times> jsnum" where
  "dot_and_norm [] v acc = acc"
| "dot_and_norm (q # qs) [] (dotProduct, itemNorm) =
     dot_and_norm qs []
       (js_add dotProduct (js_mul q NaN), js_add itemNorm (js_mul NaN NaN))"
| "dot_and_norm (q # qs) (x # xs) (dotProduct, itemNorm) =
     dot_and_norm qs xs
       (js_add dotProduct (js_mul q x), js_add itemNorm (js_mul x x))"

definition item_similarity :: "jsnum list \<Rightarrow> jsnum \<Rightarrow> jsnum list \<Rightarrow> jsnum" where
  "item_similarity query queryNorm v =
     (case dot_and_norm query v (Fin 0, Fin 0) of
        (dotProduct, sq) \<Rightarrow>
          (let itemNorm = js_sqrt sq
           in if js_gt itemNorm (Fin 0) \<and> js_gt queryNorm (Fin 0)
              then js_div dotProduct (js_mul queryNorm itemNorm)
              else Fin 0))"

text \<open>
  \<open>topKHeap.sort((a, b) => b.similarity - a.similarity)\<close>. The difference is positive,
  which puts \<open>b\<close> before \<open>a\<close>, exactly when \<open>a.similarity < b.similarity\<close> (the difference
  of two distinct numbers does not round to zero); it is \<open>NaN\<close>, which the sort takes for
  0, when one of the two is \<open>NaN\<close> or both are the same infinity. \<open>Array.prototype.sort\<close>
  is stable; it is modelled as the stable insertion sort, which is the one result a stable
  sort can have whenever the comparison is consistent.
\<close>

fun sort_insert :: "Ranked \<Rightarrow> Ranked list \<Rightarrow> Ranked list" where
  "sort_insert a [] = [a]"
| "sort_insert a (b # rest) =
     (if js_lt (similarity a) (similarity b) then b # sort_insert a rest else a # b # rest)"

definition sort_desc :: "Ranked list \<Rightarrow> Ranked list" where
  "sort_desc heap = foldr sort_insert heap []"

definition heap_insert :: "int \<Rightarrow> Ranked list \<Rightarrow> Ranked \<Rightarrow> js_error + Ranked list" where
  \<comment> \<open>with an empty heap, \<open>topKHeap[topKHeap.length - 1]\<close> is \<open>undefined\<close> and reading
      its \<open>similarity\<close> throws\<close>
  "heap_insert topK topKHeap entry =
     (if int (length topKHeap) < topK then
        (let pushed = topKHeap @ [entry]
         in Inr (if int (length pushed) = topK then sort_desc pushed else pushed))
      else (case topKHeap of
              [] \<Rightarrow> Inl TypeError
            | _ \<Rightarrow>
               if js_gt (similarity entry) (similarity (last topKHeap))
               then Inr (sort_desc (butlast topKHeap @ [entry]))
               else Inr topKHeap))"

fun item_loop ::
  "jsnum list \<Rightarrow> jsnum \<Rightarrow> int \<Rightarrow> VectorItem list \<Rightarrow> Ranked list \<Rightarrow> js_error + Ranked list" where
  "item_loop query queryNorm topK [] topKHeap = Inr topKHeap"
| "item_loop query queryNorm topK (item # batch) topKHeap =
     (case heap_insert topK topKHeap
             (with_similarity item (item_similarity query queryNorm (vector item))) of
        Inl e \<Rightarrow> Inl e
      | Inr topKHeap' \<Rightarrow> item_loop query queryNorm topK batch topKHeap')"

definition BATCH_SIZE :: nat where
  "BATCH_SIZE = 100"

definition slice :: "'a list \<Rightarrow> nat \<Rightarrow> nat \<Rightarrow> 'a list" where
  \<comment> \<open>\<open>xs.slice(i, j)\<close> for \<open>0 \<le> i\<close> and \<open>0 \<le> j\<close>\<close>
  "slice xs i j = take (j - i) (drop i xs)"

function batch_loop ::
  "jsnum list \<Rightarrow> jsnum \<Rightarrow> int \<Rightarrow> VectorItem list \<Rightarrow> nat \<Rightarrow> Ranked list \<Rightarrow> js_error + Ranked list"
  where
  "batch_loop query queryNorm topK vectors i topKHeap =
     (if i < length vectors then
        (case item_loop query queryNorm topK
                (slice vectors i (min (i + BATCH_SIZE) (length vectors))) topKHeap of
           Inl e \<Rightarrow> Inl e
         | Inr topKHeap' \<Rightarrow> batch_loop query queryNorm topK vectors (i + BATCH_SIZE) topKHeap')
      else Inr topKHeap)"
  by pat_completeness auto
termination
  by (relation "measure (\<lambda>(query, queryNorm, topK, vectors, i, topKHeap). length vectors - i)")
     (auto simp: BATCH_SIZE_def)

declare batch_loop.simps [simp del]

definition rankByCosine :: "jsnum list \<Rightarrow> VectorItem list \<Rightarrow> int \<Rightarrow> js_error + Ranked list" where
  "rankByCosine query vectors topK =
     (if length vectors = 0 then Inr []
      else (case batch_loop query (query_norm query) topK vectors 0 [] of
              Inl e \<Rightarrow> Inl e
            | Inr topKHeap \<Rightarrow> Inr (sort_desc topKHeap)))"

definition scored :: "jsnum list \<Rightarrow> VectorItem \<Rightarrow> Ranked" where
  \<comment> \<open>a candidate together with the similarity the loop computes for it\<close>
  "scored query item =
     with_similarity item (item_similarity query (query_norm query) (vector item))"

section \<open>Context assembler: \<open>buildContext\<close> and \<open>buildPrompt\<close>\<close>

definition digit_char :: "nat \<Rightarrow> char" where
  "digit_char d = char_of (48 + d)"

fun show_nat :: "nat \<Rightarrow> string" where
  "show_nat n = (if n < 10 then [digit_char n] else show_nat (n div 10) @ [digit_char (n mod 10)])"

declare show_nat.simps [simp del]

definition number_to_string :: "int \<Rightarrow> string" where
  \<comment> \<open>how a template literal renders an integer-valued number\<close>
  "number_to_string i = (if i < 0 then CHR ''-'' # show_nat (nat (- i)) else show_nat (nat i))"

definition NL :: string where
  "NL = [CHR 0x0A]"

record ChunkSource =
  filename :: string
  chunkIndex :: int
  source_text :: string

type_synonym SourceRef = "string \<times> int"

record BuiltContext =
  contextText :: string
  sources :: "SourceRef list"

definition source_key :: "string \<Rightarrow> int \<Rightarrow> string" where
  \<comment> \<open>\<open>`${filename}#${chunkIndex}`\<close>\<close>
  "source_key f i = f @ ''#'' @ number_to_string i"

definition render_chunk :: "ChunkSource \<Rightarrow> string" where
  \<comment> \<open>\<open>`Source: ${chunk.filename}#${chunk.chunkIndex}\n${chunk.text}\n---\n`\<close>\<close>
  "render_chunk chunk =
     ''Source: '' @ filename chunk @ ''#'' @ number_to_string (chunkIndex chunk) @ NL
       @ source_text chunk @ NL @ ''---'' @ NL"

definition track_source :: "SourceRef list \<Rightarrow> ChunkSource \<Rightarrow> SourceRef list" where
  "track_source srcs chunk =
     (let sourceKey = source_key (filename chunk) (chunkIndex chunk)
      in if \<not> list_ex (\<lambda>s. source_key (fst s) (snd s) = sourceKey) srcs
         then srcs @ [(filename chunk, chunkIndex chunk)]
         else srcs)"

text \<open>
  The \<open>for (const chunk of chosen)\<close> loop with its \<open>break\<close>; \<open>contextParts\<close>, \<open>sources\<close>
  and \<open>currentLength\<close> are passed as arguments.
\<close>

fun context_loop ::
  "ChunkSource list \<Rightarrow> int \<Rightarrow> string list \<Rightarrow> SourceRef list \<Rightarrow> nat
     \<Rightarrow> string list \<times> SourceRef list" where
  "context_loop [] maxChars contextParts srcs currentLength = (contextParts, srcs)"
| "context_loop (chunk # rest) maxChars contextParts srcs currentLength =
     (let rendered = render_chunk chunk; chunkLength = length rendered
      in if int (currentLength + chunkLength) > maxChars \<and> currentLength > 0
         then (contextParts, srcs)
         else context_loop rest maxChars (contextParts @ [rendered]) (track_source srcs chunk)
                (currentLength + chunkLength))"

definition buildContext :: "ChunkSource list \<Rightarrow> int \<Rightarrow> BuiltContext" where
  "buildContext chosen maxChars =
     (if length chosen = 0 then \<lparr>contextText = [], sources = []\<rparr>
      else (case context_loop chosen maxChars [] [] 0 of
              (contextParts, srcs) \<Rightarrow> \<lparr>contextText = concat contextParts, sources = srcs\<rparr>))"

definition buildPrompt :: "string \<Rightarrow> string \<Rightarrow> string" where
  \<comment> \<open>first parameter \<open>question\<close>, second parameter \<open>context\<close>\<close>
  "buildPrompt q ctx =
     ''You are a helpful assistant. Use ONLY the context below to answer.'' @ NL
     @ ''If the context does not contain the answer, say '' @ [CHR 0x22] @ ''I can''
     @ [CHR 0x27] @ ''t find that in the notes.'' @ [CHR 0x22] @ NL
     @ ''Cite sources as (filename#chunkIndex).'' @ NL @ NL
     @ ''CONTEXT:'' @ NL @ ctx @ NL @ NL
     @ ''QUESTION:'' @ NL @ q @ NL @ NL
     @ ''ANSWER:'' @ NL"

definition first_seen :: "'a list \<Rightarrow> 'a list" where
  \<comment> \<open>the elements of a list, each once, in the order of their first occurrences
      (\<^const>\<open>remdups\<close> keeps last occurrences)\<close>
  "first_seen xs = rev (remdups (rev xs))"

definition source_ref :: "ChunkSource \<Rightarrow> SourceRef" where
  "source_ref chunk = (filename chunk, chunkIndex chunk)"

section \<open>Retrieval orchestrator: the two \<open>POST\<close> handlers\<close>

text \<open>
  The handlers of \<open>/api/query\<close> and \<open>/api/query-stream\<close>. What they call outside the
  retrieval core is a parameter: the embedder, the full-text search, the stored embeddings
  and the generator. A call that throws is a \<open>None\<close> (or an \<open>Inl\<close>) of the parameter.
  The request body is taken to carry a string \<open>question\<close> and a numeric
  \<open>conversationId\<close>; the Prisma calls other than the full-text query are taken to
  succeed. Persisting the messages does not change the response (its failure is caught
  and logged) and is left out.
\<close>

record Config =
  TOP_K :: int
  MAX_CONTEXT_CHARS :: int
  MAX_EMBEDDINGS_SEARCH :: nat
  PREFILTER_LIMIT :: int

definition default_config :: Config where
  "default_config =
     \<lparr>TOP_K = 5, MAX_CONTEXT_CHARS = 3000, MAX_EMBEDDINGS_SEARCH = 1000,
      PREFILTER_LIMIT = 200\<rparr>"

datatype stored_vector = NotAnArray | JsonArray "jsnum list"

record EmbeddingRow =
  chunkId :: int
  stored :: stored_vector
  documentId :: int
  row_chunkIndex :: int
  row_text :: string
  row_filename :: string
  row_conversationId :: int

datatype generator_error = CannotConnect | ModelNotFound | OtherGeneratorError

record World =
  conversations :: "int list"
  embedWithOllama :: "string list \<Rightarrow> jsnum list list option"
  fts5_query :: "string \<Rightarrow> int \<Rightarrow> int \<Rightarrow> int list option"
  embedding_table :: "EmbeddingRow list"
  generateWithOllama :: "string \<Rightarrow> generator_error + string"
  generateStreamWithOllama :: "string \<Rightarrow> string list \<times> bool"

record Request =
  question :: string
  conversationId :: int

datatype failure =
    InvalidQuestion
  | MissingConversationId
  | ConversationNotFound
  | QuestionEmbeddingFailed
  | NoEmbeddedContent
  | NoContextBuilt
  | GeneratorUnreachable
  | GeneratorModelMissing
  | GenerationFailed
  | UnexpectedError

fun status :: "failure \<Rightarrow> nat" where
  "status InvalidQuestion = 400"
| "status MissingConversationId = 400"
| "status ConversationNotFound = 404"
| "status QuestionEmbeddingFailed = 500"
| "status NoEmbeddedContent = 422"
| "status NoContextBuilt = 422"
| "status GeneratorUnreachable = 503"
| "status GeneratorModelMissing = 404"
| "status GenerationFailed = 500"
| "status UnexpectedError = 500"

record SourceWithDocId =
  out_documentId :: int
  out_chunkId :: int
  out_filename :: string
  out_chunkIndex :: int

record QueryAnswer =
  answer :: string
  answer_sources :: "SourceWithDocId list"
  used_k :: nat

datatype stream_end = Done string | StreamError

record StreamBody =
  stream_sources :: "SourceWithDocId list"
  deltas :: "string list"
  ending :: stream_end

definition fts_escape :: "string \<Rightarrow> string" where
  \<comment> \<open>\<open>question.replace(/'/g, "''")\<close>\<close>
  "fts_escape q = concat (map (\<lambda>c. if c = CHR 0x27 then [CHR 0x27, CHR 0x27] else [c]) q)"

definition prefilter :: "Config \<Rightarrow> World \<Rightarrow> string \<Rightarrow> int \<Rightarrow> int list" where
  \<comment> \<open>\<open>candidateChunkIds\<close> after the \<open>try\<close>/\<open>catch\<close> around the full-text query: it
      stays \<open>[]\<close> when the query throws\<close>
  "prefilter cfg w q cid =
     (case fts5_query w (fts_escape q) cid (PREFILTER_LIMIT cfg) of
        None \<Rightarrow> []
      | Some ids \<Rightarrow> ids)"

definition in_scope :: "int \<Rightarrow> EmbeddingRow \<Rightarrow> bool" where
  "in_scope cid emb = (row_conversationId emb = cid)"

definition fetch_embeddings :: "Config \<Rightarrow> World \<Rightarrow> int \<Rightarrow> int list \<Rightarrow> EmbeddingRow list" where
  \<comment> \<open>\<open>prisma.embedding.findMany\<close> with \<open>take: MAX_EMBEDDINGS_SEARCH\<close>; the \<open>id in\<close>
      condition is present only when \<open>candidateChunkIds.length > 0\<close>\<close>
  "fetch_embeddings cfg w cid candidateChunkIds =
     take (MAX_EMBEDDINGS_SEARCH cfg)
       (filter (\<lambda>emb. (if length candidateChunkIds > 0 then chunkId emb \<in> set candidateChunkIds
                        else True)
                     \<and> in_scope cid emb)
          (embedding_table w))"

definition usable :: "EmbeddingRow \<Rightarrow> bool" where
  \<comment> \<open>\<open>Array.isArray(vec) && vec.length > 0\<close>\<close>
  "usable emb = (case stored emb of NotAnArray \<Rightarrow> False | JsonArray vec \<Rightarrow> length vec > 0)"

definition to_item :: "EmbeddingRow \<Rightarrow> VectorItem" where
  "to_item emb =
     \<lparr>item_id = chunkId emb,
      vector = (case stored emb of NotAnArray \<Rightarrow> [] | JsonArray vec \<Rightarrow> vec),
      docId = documentId emb, item_chunkIndex = row_chunkIndex emb,
      item_filename = row_filename emb, item_text = row_text emb\<rparr>"

definition vectorRows :: "EmbeddingRow list \<Rightarrow> VectorItem list" where
  "vectorRows embeddings = map to_item (filter usable embeddings)"

definition to_chunk_source :: "Ranked \<Rightarrow> ChunkSource" where
  "to_chunk_source c =
     \<lparr>filename = item_filename c, chunkIndex = item_chunkIndex c, source_text = item_text c\<rparr>"

definition sourcesWithDocId :: "Ranked list \<Rightarrow> SourceRef list \<Rightarrow> SourceWithDocId list" where
  \<comment> \<open>\<open>matchedChunk?.docId || 0\<close> and \<open>matchedChunk?.id || 0\<close>\<close>
  "sourcesWithDocId chosen srcs =
     map (\<lambda>s. case find (\<lambda>c. item_filename c = fst s \<and> item_chunkIndex c = snd s) chosen of
                 None \<Rightarrow> \<lparr>out_documentId = 0, out_chunkId = 0,
                           out_filename = fst s, out_chunkIndex = snd s\<rparr>
               | Some c \<Rightarrow> \<lparr>out_documentId = docId c, out_chunkId = item_id c,
                             out_filename = fst s, out_chunkIndex = snd s\<rparr>) srcs"

definition query_prompt :: "string \<Rightarrow> string \<Rightarrow> string" where
  \<comment> \<open>query/route.ts: \<open>const prompt = buildPrompt(question, context)\<close>\<close>
  "query_prompt q ctx = buildPrompt q ctx"

definition stream_prompt :: "string \<Rightarrow> string \<Rightarrow> string" where
  \<comment> \<open>query-stream/route.ts: \<open>const prompt = buildPrompt(context, question)\<close>\<close>
  "stream_prompt q ctx = buildPrompt ctx q"

definition generator_failure :: "generator_error \<Rightarrow> failure" where
  "generator_failure e =
     (case e of CannotConnect \<Rightarrow> GeneratorUnreachable
              | ModelNotFound \<Rightarrow> GeneratorModelMissing
              | OtherGeneratorError \<Rightarrow> GenerationFailed)"

definition answer_query ::
  "Config \<Rightarrow> World \<Rightarrow> string \<Rightarrow> jsnum list \<Rightarrow> EmbeddingRow list \<Rightarrow> failure + QueryAnswer" where
  \<comment> \<open>query/route.ts from the \<open>embeddings.length === 0\<close> check on; a throw of
      \<open>rankByCosine\<close> reaches the outer \<open>catch\<close>\<close>
  "answer_query cfg w q queryVector embeddings =
     (if length embeddings = 0 then Inl NoEmbeddedContent
      else (case rankByCosine queryVector (vectorRows embeddings) (TOP_K cfg) of
              Inl e \<Rightarrow> Inl UnexpectedError
            | Inr chosen \<Rightarrow>
               (let built = buildContext (map to_chunk_source chosen) (MAX_CONTEXT_CHARS cfg)
                in if length (contextText built) = 0 then Inl NoContextBuilt
                   else (case generateWithOllama w (query_prompt q (contextText built)) of
                           Inl e \<Rightarrow> Inl (generator_failure e)
                         | Inr text \<Rightarrow>
                            Inr \<lparr>answer = trim text,
                                 answer_sources = sourcesWithDocId chosen (sources built),
                                 used_k = length chosen\<rparr>))))"

definition answer_stream ::
  "Config \<Rightarrow> World \<Rightarrow> string \<Rightarrow> jsnum list \<Rightarrow> EmbeddingRow list \<Rightarrow> failure + StreamBody" where
  \<comment> \<open>query-stream/route.ts from the \<open>embeddings.length === 0\<close> check on; there is no
      check of the built context here\<close>
  "answer_stream cfg w q queryVector embeddings =
     (if length embeddings = 0 then Inl NoEmbeddedContent
      else (case rankByCosine queryVector (vectorRows embeddings) (TOP_K cfg) of
              Inl e \<Rightarrow> Inl UnexpectedError
            | Inr chosen \<Rightarrow>
               (let built = buildContext (map to_chunk_source chosen) (MAX_CONTEXT_CHARS cfg);
                    prompt = stream_prompt q (contextText built)
                in (case generateStreamWithOllama w prompt of
                      (pieces, thrown) \<Rightarrow>
                        Inr \<lparr>stream_sources = sourcesWithDocId chosen (sources built),
                             deltas = pieces,
                             ending = (if thrown then StreamError else Done (concat pieces))\<rparr>))))"

definition retrieve ::
  "(Config \<Rightarrow> World \<Rightarrow> string \<Rightarrow> jsnum list \<Rightarrow> EmbeddingRow list \<Rightarrow> failure + 'a)
     \<Rightarrow> Config \<Rightarrow> World \<Rightarrow> Request \<Rightarrow> failure + 'a" where
  \<comment> \<open>the part the two handlers share line for line: validation, the question's embedding,
      the prefilter and the fetch of the embeddings\<close>
  "retrieve finish cfg w req =
     (if question req = [] \<or> length (trim (question req)) = 0 then Inl InvalidQuestion
      else if conversationId req = 0 then Inl MissingConversationId
      else if conversationId req \<notin> set (conversations w) then Inl ConversationNotFound
      else (case embedWithOllama w [question req] of
              None \<Rightarrow> Inl UnexpectedError
            | Some questionEmbeddings \<Rightarrow>
               (case questionEmbeddings of
                  [] \<Rightarrow> Inl QuestionEmbeddingFailed
                | queryVector # _ \<Rightarrow>
                   if length queryVector = 0 then Inl QuestionEmbeddingFailed
                   else (let candidateChunkIds =
                               prefilter cfg w (question req) (conversationId req);
                             embeddings =
                               fetch_embeddings cfg w (conversationId req) candidateChunkIds
                         in finish cfg w (question req) queryVector embeddings))))"

definition POST_query :: "Config \<Rightarrow> World \<Rightarrow> Request \<Rightarrow> failure + QueryAnswer" where
  "POST_query = retrieve answer_query"

definition POST_query_stream :: "Config \<Rightarrow> World \<Rightarrow> Request \<Rightarrow> failure + StreamBody" where
  "POST_query_stream = retrieve answer_stream"

section \<open>Auxiliary definitions used in the proofs and in the concrete instances\<close>

definition stuck_state :: "string \<Rightarrow> int \<Rightarrow> int \<Rightarrow> int \<Rightarrow> TextChunk list \<Rightarrow> bool" where
  \<comment> \<open>an iteration of the chunking loop that pushes nothing and leaves \<open>startIndex\<close>
      where it was\<close>
  "stuck_state trimmed chunkSize overlap startIndex chunks =
     (let endIndex = min (startIndex + chunkSize) (int (length trimmed))
      in 0 \<le> startIndex \<and> startIndex < int (length trimmed)
         \<and> endIndex \<noteq> int (length trimmed)
         \<and> trim (substring trimmed startIndex endIndex) = []
         \<and> \<not> le_last_index (endIndex - overlap) chunks
         \<and> endIndex - overlap = startIndex)"

fun desc_key :: "jsnum \<Rightarrow> int \<times> real" where
  \<comment> \<open>a key, in the lexicographic order of pairs, that grows as the number falls\<close>
  "desc_key PInf = (0, 0)"
| "desc_key (Fin x) = (1, - x)"
| "desc_key NInf = (2, 0)"
| "desc_key NaN = (3, 0)"

definition rank_key :: "Ranked \<Rightarrow> int \<times> real" where
  "rank_key r = desc_key (similarity r)"

definition heap_inv :: "nat \<Rightarrow> Ranked list \<Rightarrow> Ranked list \<Rightarrow> bool" where
  \<comment> \<open>the heap after the scored candidates \<open>p\<close>: all of them, as pushed, while there are
      fewer than \<open>K\<close>; from then on the first \<open>K\<close> of their stable descending sort\<close>
  "heap_inv K p heap =
     (length p < K \<and> heap = p \<or> K \<le> length p \<and> heap = take K (sort_key rank_key p))"

fun included :: "ChunkSource list \<Rightarrow> int \<Rightarrow> nat \<Rightarrow> nat" where
  \<comment> \<open>how many chunks the assembling loop appends before it stops\<close>
  "included [] maxChars currentLength = 0"
| "included (chunk # rest) maxChars currentLength =
     (if int (currentLength + length (render_chunk chunk)) > maxChars \<and> currentLength > 0 then 0
      else Suc (included rest maxChars (currentLength + length (render_chunk chunk))))"

definition total :: "ChunkSource list \<Rightarrow> nat" where
  "total cs = length (concat (map render_chunk cs))"

definition read_nat :: "string \<Rightarrow> nat" where
  \<comment> \<open>reads a decimal numeral back; the left inverse of \<^const>\<open>show_nat\<close>\<close>
  "read_nat s = foldl (\<lambda>acc c. 10 * acc + (of_char c - 48)) 0 s"

definition reaches_retrieval :: "World \<Rightarrow> Request \<Rightarrow> jsnum list \<Rightarrow> bool" where
  \<comment> \<open>the request passes validation, its conversation exists, and the embedder returns
      \<open>queryVector\<close>, not empty, as the first embedding\<close>
  "reaches_retrieval w req queryVector =
     (trim (question req) \<noteq> [] \<and> conversationId req \<noteq> 0
      \<and> conversationId req \<in> set (conversations w)
      \<and> (case embedWithOllama w [question req] of
            Some (v # _) \<Rightarrow> v = queryVector \<and> v \<noteq> []
          | _ \<Rightarrow> False))"

definition huge :: real where
  \<comment> \<open>the largest power of two among the finite numbers, \<open>2 ** 1023\<close>, about
      \<open>8.99e307\<close>\<close>
  "huge = 2 ^ 1023"

definition root2 :: real where
  \<comment> \<open>\<open>Math.sqrt(2)\<close>, printed \<open>1.4142135623730951\<close>\<close>
  "root2 = 6369051672525773 / 2 ^ 52"

definition root18 :: real where
  \<comment> \<open>\<open>Math.sqrt(18)\<close>, printed \<open>4.242640687119285\<close>\<close>
  "root18 = 4776788754394329 / 2 ^ 50"

definition above_two :: real where
  \<comment> \<open>the number after 2, printed \<open>2.0000000000000004\<close>\<close>
  "above_two = 4503599627370497 / 2 ^ 51"

definition below_one :: real where
  \<comment> \<open>the number before 1, printed \<open>0.9999999999999998\<close>\<close>
  "below_one = 4503599627370495 / 2 ^ 52"

definition example_item :: "int \<Rightarrow> jsnum list \<Rightarrow> VectorItem" where
  "example_item i v =
     \<lparr>item_id = i, vector = v, docId = 1, item_chunkIndex = i,
      item_filename = ''a.pdf'', item_text = ''t''\<rparr>"

definition example_chunk :: "int \<Rightarrow> ChunkSource" where
  "example_chunk i = \<lparr>filename = ''a.pdf'', chunkIndex = i, source_text = ''hello''\<rparr>"

definition example_row :: "int \<Rightarrow> stored_vector \<Rightarrow> EmbeddingRow" where
  "example_row i v =
     \<lparr>chunkId = i, stored = v, documentId = 1, row_chunkIndex = i, row_text = ''hello'',
      row_filename = ''a.pdf'', row_conversationId = 1\<rparr>"

definition unusable_rows :: "nat \<Rightarrow> EmbeddingRow list" where
  \<comment> \<open>\<open>n\<close> rows of the example conversation, chunks \<open>0\<close> to \<open>n - 1\<close>, each storing
      an empty vector\<close>
  "unusable_rows n = map (\<lambda>i. example_row (int i) (JsonArray [])) [0..<n]"

definition example_world :: "EmbeddingRow list \<Rightarrow> World" where
  \<comment> \<open>one conversation, an embedder returning \<open>[1, 0]\<close>, a full-text query that throws,
      and a generator that answers\<close>
  "example_world table =
     \<lparr>conversations = [1],
      embedWithOllama = (\<lambda>texts. Some [[Fin 1, Fin 0]]),
      fts5_query = (\<lambda>q cid limit. None),
      embedding_table = table,
      generateWithOllama = (\<lambda>prompt. Inr ''ok''),
      generateStreamWithOllama = (\<lambda>prompt. ([''ok''], False))\<rparr>"

definition echo_world :: "EmbeddingRow list \<Rightarrow> World" where
  \<comment> \<open>as \<open>example_world\<close>, with a generator that gives back the prompt it is handed\<close>
  "echo_world table =
     \<lparr>conversations = [1],
      embedWithOllama = (\<lambda>texts. Some [[Fin 1, Fin 0]]),
      fts5_query = (\<lambda>q cid limit. None),
      embedding_table = table,
      generateWithOllama = (\<lambda>prompt. Inr prompt),
      generateStreamWithOllama = (\<lambda>prompt. ([prompt], False))\<rparr>"

definition example_request :: Request where
  "example_request = \<lparr>question = ''what?'', conversationId = 1\<rparr>"

section \<open>Chunker: termination and the missing progress\<close>

lemma trim_Nil: "trim [] = []"
  by (simp add: trim_def)

lemma chunk_loop_stuck_no_result:
  assumes run: "chunk_loop trimmed chunkSize overlap startIndex chunks nextIndex = Some r"
  shows "\<not> stuck_state trimmed chunkSize overlap startIndex chunks"
proof (rule chunk_loop.raw_induct
    [where P = "\<lambda>t cs ov s ch ni r. \<not> stuck_state t cs ov s ch", OF _ run])
  fix f t cs ov s ch ni y
  assume IH: "\<And>t cs ov s ch ni y. f t cs ov s ch ni = Some y \<Longrightarrow> \<not> stuck_state t cs ov s ch"
    and step: "(if s < int (length t)
      then let endIndex = min (s + cs) (int (length t)); piece = trim (substring t s endIndex);
               chunks' = if piece \<noteq> [] then push_chunk ch ni piece else ch;
               chunkIndex' = if piece \<noteq> [] then ni + 1 else ni
           in if endIndex = int (length t) then Some chunks'
              else let moved = endIndex - ov;
                       startIndex' =
                         if le_last_index moved chunks' \<or> moved < 0 then endIndex else moved
                   in f t cs ov startIndex' chunks' chunkIndex'
      else Some ch) = Some y"
  show "\<not> stuck_state t cs ov s ch"
  proof
    assume stuck: "stuck_state t cs ov s ch"
    with step have "f t cs ov s ch ni = Some y"
      by (simp add: stuck_state_def Let_def split: if_splits)
    from IH[OF this] stuck show False by simp
  qed
qed

lemma stuck_state_diverges:
  "stuck_state trimmed chunkSize overlap startIndex chunks \<Longrightarrow>
   chunk_loop trimmed chunkSize overlap startIndex chunks nextIndex = None"
  using chunk_loop_stuck_no_result
  by (cases "chunk_loop trimmed chunkSize overlap startIndex chunks nextIndex") auto

lemma chunk_loop_returns:
  assumes "0 < chunkSize" and "overlap < chunkSize"
  shows "\<exists>r. chunk_loop trimmed chunkSize overlap startIndex chunks nextIndex = Some r"
proof (induction "nat (int (length trimmed) - startIndex)" arbitrary: startIndex chunks nextIndex
    rule: less_induct)
  case less
  show ?case
  proof (cases "startIndex < int (length trimmed)")
    case False
    then show ?thesis by (subst chunk_loop.simps) simp
  next
    case True
    let ?endIndex = "min (startIndex + chunkSize) (int (length trimmed))"
    show ?thesis
    proof (cases "?endIndex = int (length trimmed)")
      case atEnd: True
      with True show ?thesis by (subst chunk_loop.simps) (simp add: Let_def)
    next
      case notEnd: False
      then have e: "?endIndex = startIndex + chunkSize"
        and lt: "startIndex + chunkSize < int (length trimmed)"
        by (auto simp: min_def split: if_splits)
      have progress: "nat (int (length trimmed) - s') < nat (int (length trimmed) - startIndex)"
        if "s' = ?endIndex \<or> s' = ?endIndex - overlap" for s'
        using that e lt assms True by auto
      show ?thesis
        apply (subst chunk_loop.simps)
        using True notEnd
        apply (simp add: Let_def del: min_less_iff_conj)
        apply (intro conjI impI less.hyps progress)
           apply simp_all
        done
    qed
  qed
qed

lemma chunkText_size_zero_diverges: "chunkText ''a'' 0 0 = None"
proof -
  have "chunk_loop ''a'' 0 0 0 [] 0 = None"
    by (rule stuck_state_diverges)
       (simp add: stuck_state_def substring_def clamp_index_def trim_def le_last_index_def)
  then show ?thesis
    by (simp add: chunkText_def trim_def is_ws_def)
qed

text \<open>
  Claim C1. For every input whose trimmed form is not empty, every \<open>size > 0\<close> and every
  \<open>overlap \<ge> 0\<close>, \<open>overlap \<ge> size\<close> included, \<open>chunkText\<close> terminates, making progress
  on every iteration. The code does not: the check that should force progress compares
  the next start with the sequence index of the last chunk, not with a position in the
  text. On the input \<open>"a b"\<close> with \<open>size = 1\<close> and \<open>overlap = 1\<close> the second window is a
  single blank, nothing is pushed, and the loop comes back to \<open>startIndex = 1\<close> with the
  same chunks for ever.
\<close>

theorem chunkText_degenerate_overlap_diverges: "chunkText ''a b'' 1 1 = None"
proof -
  have stuck:
    "chunk_loop ''a b'' 1 1 1 [\<lparr>index = 0, chunk_text = ''a'', tokenCount = 1\<rparr>] 1 = None"
    by (rule stuck_state_diverges)
       (simp add: stuck_state_def substring_def clamp_index_def trim_def is_ws_def
          le_last_index_def)
  have first: "chunk_loop ''a b'' 1 1 0 [] 0
      = chunk_loop ''a b'' 1 1 1 [\<lparr>index = 0, chunk_text = ''a'', tokenCount = 1\<rparr>] 1"
    by (subst chunk_loop.simps)
       (simp add: substring_def clamp_index_def trim_def is_ws_def le_last_index_def
          push_chunk_def)
  have "trim ''a b'' = ''a b''"
    by (simp add: trim_def is_ws_def)
  then show ?thesis
    using first stuck by (simp add: chunkText_def)
qed

text \<open>
  Claim C9, as amended. \<open>chunkText\<close> validates nothing and has no validation error: an
  input that is empty after trimming returns the empty sequence for every size and
  overlap, \<open>size \<le> 0\<close> included; and for \<open>size > 0\<close> with \<open>overlap < size\<close> it returns
  on every input.
\<close>

theorem chunkText_returns_without_validation:
  "(trim input = [] \<longrightarrow> chunkText input chunkSize overlap = Some [])
   \<and> (0 < chunkSize \<and> overlap < chunkSize \<longrightarrow> (\<exists>r. chunkText input chunkSize overlap = Some r))"
  by (simp add: chunkText_def Let_def chunk_loop_returns)

theorem chunkText_returns_without_validation_witness:
  "trim ''   '' = [] \<and> chunkText ''   '' 0 200 = Some []
   \<and> (0::int) < 1500 \<and> (200::int) < 1500 \<and> (\<exists>r. chunkText ''hello world'' 1500 200 = Some r)"
  using chunkText_returns_without_validation [of "''   ''" 0 200]
    chunkText_returns_without_validation [of "''hello world''" 1500 200]
  by (simp add: trim_def is_ws_def)

text \<open>
  The claim as it was stated asks for a validation failure at every \<open>size \<le> 0\<close>. At a
  blank input and \<open>size = 0\<close> the function returns normally.
\<close>

theorem chunkText_no_size_validation_counterexample: "chunkText ''   '' 0 200 = Some []"
  by (simp add: chunkText_def trim_def is_ws_def)

section \<open>JavaScript numbers: values that the arithmetic leaves exact, and overflow\<close>

lemma round_even_of_int: "round_even (of_int n) = n"
  by (simp add: round_even_def)

lemma binade_pow2: "binade (2 ^ n) = int n"
proof -
  have "\<lfloor>log 2 \<bar>2 ^ n :: real\<bar>\<rfloor> = int n" by simp
  then show ?thesis by (simp add: binade_def)
qed

lemma to_double_pow2:
  assumes "n \<le> 1023"
  shows "to_double (2 ^ n) = Fin (2 ^ n)"
proof -
  have small: "\<not> (2 ^ 1024 - 2 ^ 970 \<le> \<bar>2 ^ n :: real\<bar>)"
  proof -
    have "(2::real) ^ n \<le> 2 ^ 1023" using assms by (intro power_increasing) simp_all
    moreover have "(2::real) ^ 970 < 2 ^ 1023" by (intro power_strict_increasing) simp_all
    moreover have "(2::real) ^ 1024 = 2 * 2 ^ 1023" by simp
    ultimately show ?thesis by simp
  qed
  have "(2::real) powr (real n - 52) = 2 powr real n / 2 powr 52" by (rule powr_diff)
  also have "\<dots> = 2 ^ n / 2 ^ 52" by (simp add: powr_realpow)
  finally have ulp: "2 powr (real n - 52) = (2::real) ^ n / 2 ^ 52" .
  have "(2::real) ^ n / (2 ^ n / 2 ^ 52) = of_int (2 ^ 52)" by simp
  then have re: "round_even ((2::real) ^ n / (2 ^ n / 2 ^ 52)) = 2 ^ 52"
    by (simp only: round_even_of_int)
  have "to_double (2 ^ n)
      = Fin (2 powr (real n - 52) * of_int (round_even (2 ^ n / 2 powr (real n - 52))))"
    using small by (simp add: to_double_def binade_pow2 Let_def)
  also have "\<dots> = Fin (2 ^ n)"
    by (simp only: ulp re) simp
  finally show ?thesis .
qed

lemma to_double_0: "to_double 0 = Fin 0"
  by (simp add: to_double_def)

lemma to_double_1: "to_double 1 = Fin 1"
  using to_double_pow2[of 0] by simp

lemma to_double_2: "to_double 2 = Fin 2"
  using to_double_pow2[of 1] by simp

lemma to_double_4: "to_double 4 = Fin 4"
  using to_double_pow2[of 2] by simp

lemma to_double_overflow: "2 ^ 1024 \<le> x \<Longrightarrow> to_double x = PInf"
proof -
  assume a: "2 ^ 1024 \<le> x"
  have "(0::real) < 2 ^ 1024" by simp
  with a have "0 < x" by linarith
  moreover have "2 ^ 1024 - 2 ^ 970 \<le> \<bar>x\<bar>" using a by (simp add: abs_if)
  ultimately show ?thesis by (simp add: to_double_def)
qed

lemmas exact_doubles = to_double_0 to_double_1 to_double_2 to_double_4

text \<open>
  A positive number in the binade \<open>2\<^sup>5\<^sup>2\<^sup>-\<^sup>k \<le> x < 2\<^sup>5\<^sup>3\<^sup>-\<^sup>k\<close> rounds to the multiple
  \<open>n / 2\<^sup>k\<close> of the spacing \<open>1 / 2\<^sup>k\<close> that is less than half a spacing away.
\<close>

lemma round_even_nearest:
  assumes "of_int n - 1 / 2 < y" and "y < of_int n + 1 / 2"
  shows "round_even y = n"
proof (cases "of_int n \<le> y")
  case True
  with assms have f: "\<lfloor>y\<rfloor> = n" by (intro floor_unique) linarith+
  with assms show ?thesis by (simp add: round_even_def Let_def)
next
  case False
  have "real_of_int (n - 1) = real_of_int n - 1" by simp
  with assms False have "real_of_int (n - 1) \<le> y" and "y < real_of_int (n - 1) + 1"
    by linarith+
  then have f: "\<lfloor>y\<rfloor> = n - 1" by (rule floor_unique)
  have "\<not> y - (real_of_int n - 1) < 1 / 2" and "1 / 2 < y - (real_of_int n - 1)"
    using assms by linarith+
  then show ?thesis by (simp add: round_even_def Let_def f)
qed

lemma to_double_nearest:
  fixes x :: real and k :: nat and n :: int
  assumes lo: "2 ^ 52 \<le> x * 2 ^ k" and hi: "x * 2 ^ k < 2 ^ 53"
    and k: "k \<le> 1074"
    and near: "of_int n - 1 / 2 < x * 2 ^ k" "x * 2 ^ k < of_int n + 1 / 2"
  shows "to_double x = Fin (of_int n / 2 ^ k)"
proof -
  have pos: "0 < x"
  proof (rule ccontr)
    assume "\<not> 0 < x"
    then have "x * 2 ^ k \<le> 0" by (simp add: mult_le_0_iff)
    with lo show False by (smt (verit) zero_less_power)
  qed
  have p1: "2 powr real_of_int (52 - int k) = 2 ^ 52 / 2 ^ k"
  proof -
    have "(2::real) powr real_of_int (52 - int k) = 2 powr (52 - real k)" by simp
    also have "\<dots> = 2 powr 52 / 2 powr real k" by (rule powr_diff)
    also have "\<dots> = 2 ^ 52 / 2 ^ k" by (simp add: powr_realpow)
    finally show ?thesis .
  qed
  have p2: "2 powr real_of_int (52 - int k + 1) = 2 ^ 53 / 2 ^ k"
  proof -
    have "(2::real) powr real_of_int (52 - int k + 1) = 2 powr (53 - real k)" by simp
    also have "\<dots> = 2 powr 53 / 2 powr real k" by (rule powr_diff)
    also have "\<dots> = 2 ^ 53 / 2 ^ k" by (simp add: powr_realpow)
    finally show ?thesis .
  qed
  have "2 ^ 52 / 2 ^ k \<le> x" using lo by (simp add: field_simps)
  moreover have "x < 2 ^ 53 / 2 ^ k" using hi by (simp add: field_simps)
  ultimately have "2 powr real_of_int (52 - int k) \<le> x
      \<and> x < 2 powr real_of_int (52 - int k + 1)"
    by (simp only: p1 p2)
  moreover have "(1::real) < 2" by simp
  ultimately have "\<lfloor>log 2 x\<rfloor> = 52 - int k"
    using pos by (simp only: floor_log_eq_powr_iff)
  with pos k have bin: "binade x = 52 - int k" by (simp add: binade_def)
  have ulp: "2 powr real_of_int (binade x - 52) = 1 / 2 ^ k"
  proof -
    have "(2::real) powr real_of_int (binade x - 52) = 2 powr (- real k)" by (simp add: bin)
    also have "\<dots> = 1 / 2 ^ k" by (simp add: powr_minus powr_realpow field_simps)
    finally show ?thesis .
  qed
  have re: "round_even (x / (1 / 2 ^ k)) = n"
    using near by (intro round_even_nearest) simp_all
  have "(1::real) \<le> 2 ^ k" by (rule one_le_power) simp
  then have "x \<le> x * 2 ^ k" using pos by simp
  with hi have "x < 2 ^ 53" by linarith
  moreover have "(2::real) ^ 53 \<le> 2 ^ 1024 - 2 ^ 970" by simp
  ultimately have small: "\<not> 2 ^ 1024 - 2 ^ 970 \<le> \<bar>x\<bar>" using pos by linarith
  from pos have "x \<noteq> 0" by simp
  then have "to_double x = Fin (1 / 2 ^ k * of_int (round_even (x / (1 / 2 ^ k))))"
    using small by (simp only: to_double_def ulp Let_def if_False)
  then show ?thesis by (simp only: re) simp
qed

lemma to_double_sqrt2: "to_double (sqrt 2) = Fin root2"
proof -
  have a: "(6369051672525773 - 1 / 2) / 2 ^ 52 < sqrt 2"
    by (rule real_less_rsqrt) (simp add: power2_eq_square)
  have b: "sqrt 2 < (6369051672525773 + 1 / 2) / 2 ^ 52"
    by (rule real_less_lsqrt) (simp_all add: power2_eq_square)
  have c: "1 \<le> sqrt 2" by simp
  have d: "sqrt 2 < 2" by (rule real_less_lsqrt) simp_all
  have "to_double (sqrt 2) = Fin (of_int 6369051672525773 / 2 ^ 52)"
  proof (rule to_double_nearest)
    show "2 ^ 52 \<le> sqrt 2 * 2 ^ 52" using c by simp
    show "sqrt 2 * 2 ^ 52 < 2 ^ 53" using d by simp
    show "(52::nat) \<le> 1074" by simp
    show "of_int 6369051672525773 - 1 / 2 < sqrt 2 * 2 ^ 52" using a by (simp add: field_simps)
    show "sqrt 2 * 2 ^ 52 < of_int 6369051672525773 + 1 / 2" using b by (simp add: field_simps)
  qed
  then show ?thesis by (simp add: root2_def)
qed

lemma to_double_sqrt18: "to_double (sqrt 18) = Fin root18"
proof -
  have a: "(4776788754394329 - 1 / 2) / 2 ^ 50 < sqrt 18"
    by (rule real_less_rsqrt) (simp add: power2_eq_square)
  have b: "sqrt 18 < (4776788754394329 + 1 / 2) / 2 ^ 50"
    by (rule real_less_lsqrt) (simp_all add: power2_eq_square)
  have c: "4 \<le> sqrt 18" by (rule real_le_rsqrt) simp
  have d: "sqrt 18 < 8" by (rule real_less_lsqrt) simp_all
  have "to_double (sqrt 18) = Fin (of_int 4776788754394329 / 2 ^ 50)"
  proof (rule to_double_nearest)
    show "2 ^ 52 \<le> sqrt 18 * 2 ^ 50" using c by simp
    show "sqrt 18 * 2 ^ 50 < 2 ^ 53" using d by simp
    show "(50::nat) \<le> 1074" by simp
    show "of_int 4776788754394329 - 1 / 2 < sqrt 18 * 2 ^ 50" using a by (simp add: field_simps)
    show "sqrt 18 * 2 ^ 50 < of_int 4776788754394329 + 1 / 2" using b by (simp add: field_simps)
  qed
  then show ?thesis by (simp add: root18_def)
qed

lemma to_double_3: "to_double 3 = Fin 3"
  using to_double_nearest[of 3 51 6755399441055744] by simp

lemma to_double_6: "to_double 6 = Fin 6"
  using to_double_nearest[of 6 50 6755399441055744] by simp

lemma to_double_9: "to_double 9 = Fin 9"
  using to_double_nearest[of 9 49 5066549580791808] by simp

lemma to_double_18: "to_double 18 = Fin 18"
  using to_double_nearest[of 18 48 5066549580791808] by simp

lemma root2_squared_rounds_up: "to_double (root2 * root2) = Fin above_two"
  using to_double_nearest[of "root2 * root2" 51 4503599627370497]
  by (simp add: root2_def above_two_def)

lemma two_by_above_two: "to_double (2 / above_two) = Fin below_one"
  using to_double_nearest[of "2 / above_two" 53 9007199254740990]
  by (simp add: above_two_def below_one_def)

lemma root2_root18_rounds_to_6: "to_double (root2 * root18) = Fin 6"
  using to_double_nearest[of "root2 * root18" 50 6755399441055744]
  by (simp add: root2_def root18_def)

lemma rounded_values: "0 < root2" "0 < root18" "above_two \<noteq> 0" "below_one < 1"
  by (simp_all add: root2_def root18_def above_two_def below_one_def)

section \<open>Vector ranker: the loops and the unguarded cases\<close>

lemma item_loop_append:
  "item_loop query queryNorm topK (xs @ ys) heap =
     (case item_loop query queryNorm topK xs heap of
        Inl e \<Rightarrow> Inl e
      | Inr heap' \<Rightarrow> item_loop query queryNorm topK ys heap')"
  by (induction xs arbitrary: heap) (auto split: sum.splits)

lemma slice_batch:
  "i < length xs \<Longrightarrow> slice xs i (min (i + BATCH_SIZE) (length xs)) = take BATCH_SIZE (drop i xs)"
  by (simp add: slice_def min_def)

text \<open>The batches of 100 are processed one after the other: one pass over all items.\<close>

lemma batch_loop_item_loop:
  "batch_loop query queryNorm topK vectors i heap =
     item_loop query queryNorm topK (drop i vectors) heap"
proof (induction query queryNorm topK vectors i heap rule: batch_loop.induct)
  case (1 query queryNorm topK vectors i heap)
  show ?case
  proof (cases "i < length vectors")
    case False
    then show ?thesis by (subst batch_loop.simps) simp
  next
    case True
    have "drop i vectors = take BATCH_SIZE (drop i vectors) @ drop (i + BATCH_SIZE) vectors"
      by (metis add.commute append_take_drop_id drop_drop)
    then have "item_loop query queryNorm topK (drop i vectors) heap =
        (case item_loop query queryNorm topK (take BATCH_SIZE (drop i vectors)) heap of
           Inl e \<Rightarrow> Inl e
         | Inr heap' \<Rightarrow> item_loop query queryNorm topK (drop (i + BATCH_SIZE) vectors) heap')"
      by (metis item_loop_append)
    also have "\<dots> = batch_loop query queryNorm topK vectors i heap"
      using True 1 by (subst batch_loop.simps) (simp add: slice_batch split: sum.splits)
    finally show ?thesis by simp
  qed
qed

lemma rankByCosine_item_loop:
  "rankByCosine query vectors topK =
     (if vectors = [] then Inr []
      else (case item_loop query (query_norm query) topK vectors [] of
              Inl e \<Rightarrow> Inl e
            | Inr heap \<Rightarrow> Inr (sort_desc heap)))"
  by (simp add: rankByCosine_def batch_loop_item_loop)

lemma heap_insert_returns:
  "1 \<le> topK \<Longrightarrow> \<exists>heap'. heap_insert topK heap entry = Inr heap'"
  by (cases heap) (auto simp: heap_insert_def Let_def)

lemma item_loop_returns:
  "1 \<le> topK \<Longrightarrow> \<exists>heap'. item_loop query queryNorm topK xs heap = Inr heap'"
proof (induction xs arbitrary: heap)
  case Nil
  then show ?case by simp
next
  case (Cons item xs)
  from heap_insert_returns[OF Cons.prems] obtain h where
    "heap_insert topK heap (with_similarity item (item_similarity query queryNorm (vector item)))
       = Inr h"
    by blast
  with Cons.IH[OF Cons.prems, of h] show ?case by simp
qed

lemma length_sort_insert: "length (sort_insert a xs) = Suc (length xs)"
  by (induction xs) auto

lemma length_sort_desc: "length (sort_desc xs) = length xs"
  by (induction xs) (simp_all add: sort_desc_def length_sort_insert)

lemma mset_sort_insert: "mset (sort_insert a xs) = add_mset a (mset xs)"
  by (induction xs) auto

lemma mset_sort_desc: "mset (sort_desc xs) = mset xs"
  by (induction xs) (simp_all add: sort_desc_def mset_sort_insert)

lemma sort_desc_nonempty: "xs \<noteq> [] \<Longrightarrow> sort_desc xs \<noteq> []"
  by (metis length_0_conv length_sort_desc)

lemma heap_insert_nonempty: "heap_insert topK heap entry = Inr heap' \<Longrightarrow> heap' \<noteq> []"
  by (auto simp: heap_insert_def Let_def list.case_eq_if sort_desc_nonempty split: if_splits)

lemma item_loop_nonempty:
  "item_loop query queryNorm topK xs heap = Inr heap' \<Longrightarrow> xs \<noteq> [] \<or> heap \<noteq> [] \<Longrightarrow> heap' \<noteq> []"
proof (induction xs arbitrary: heap)
  case Nil
  then show ?case by simp
next
  case (Cons item xs)
  then obtain h where
    h: "heap_insert topK heap
          (with_similarity item (item_similarity query queryNorm (vector item))) = Inr h"
    and rest: "item_loop query queryNorm topK xs h = Inr heap'"
    by (auto split: sum.splits)
  from heap_insert_nonempty[OF h] Cons.IH[OF rest] show ?case by simp
qed

lemma rankByCosine_returns_some:
  assumes "1 \<le> topK" and "vectors \<noteq> []"
  shows "\<exists>chosen. rankByCosine query vectors topK = Inr chosen \<and> chosen \<noteq> []"
proof -
  from item_loop_returns[OF assms(1)] obtain heap where
    h: "item_loop query (query_norm query) topK vectors [] = Inr heap" by blast
  from item_loop_nonempty[OF h] assms(2) have "heap \<noteq> []" by simp
  then have "sort_desc heap \<noteq> []" by (rule sort_desc_nonempty)
  with h assms(2) show ?thesis by (simp add: rankByCosine_item_loop)
qed

lemma item_loop_keeps_all:
  assumes "int (length heap + length xs) \<le> topK"
  shows "\<exists>heap'. item_loop query queryNorm topK xs heap = Inr heap' \<and>
           mset heap' = mset heap +
             mset (map (\<lambda>item. with_similarity item
                                  (item_similarity query queryNorm (vector item))) xs)"
  using assms
proof (induction xs arbitrary: heap)
  case Nil
  then show ?case by simp
next
  case (Cons item xs)
  let ?e = "with_similarity item (item_similarity query queryNorm (vector item))"
  from Cons.prems have lt: "int (length heap) < topK" by simp
  define h where
    "h = (if int (length (heap @ [?e])) = topK then sort_desc (heap @ [?e]) else heap @ [?e])"
  have ins: "heap_insert topK heap ?e = Inr h"
    using lt by (simp add: heap_insert_def Let_def h_def)
  have len: "length h = length heap + 1" and ms: "mset h = mset heap + {#?e#}"
    by (simp_all add: h_def length_sort_desc mset_sort_desc)
  from Cons.prems len have "int (length h + length xs) \<le> topK" by simp
  from Cons.IH[OF this] ins ms show ?case by auto
qed

lemma rankByCosine_nonpositive_topK:
  "vectors \<noteq> [] \<Longrightarrow> topK \<le> 0 \<Longrightarrow> rankByCosine query vectors topK = Inl TypeError"
  by (cases vectors) (simp_all add: rankByCosine_item_loop heap_insert_def)

text \<open>
  Where no similarity is \<open>NaN\<close> the comparison of the sort is a linear order: the insertion
  sort is the stable sort by the key \<^const>\<open>rank_key\<close>, which falls as the similarity grows.
\<close>

lemma js_lt_desc_key:
  "a \<noteq> NaN \<Longrightarrow> b \<noteq> NaN \<Longrightarrow> js_lt a b = (desc_key b < desc_key a)"
  by (cases a; cases b) simp_all

lemma js_ge_desc_key:
  "a \<noteq> NaN \<Longrightarrow> b \<noteq> NaN \<Longrightarrow> js_ge a b = (desc_key a \<le> desc_key b)"
  by (cases a; cases b) (auto simp: js_ge_def)

lemma desc_key_inj: "(desc_key a = desc_key b) = (a = b)"
  by (cases a; cases b) simp_all

lemma sort_insert_insort:
  assumes "similarity a \<noteq> NaN" and "\<forall>r\<in>set xs. similarity r \<noteq> NaN"
  shows "sort_insert a xs = insort_key rank_key a xs"
  using assms(2)
  by (induction xs) (auto simp: rank_key_def js_lt_desc_key assms(1))

lemma set_sort_desc: "set (sort_desc xs) = set xs"
  by (metis mset_sort_desc set_mset_mset)

lemma sort_desc_sort_key:
  "\<forall>r\<in>set xs. similarity r \<noteq> NaN \<Longrightarrow> sort_desc xs = sort_key rank_key xs"
proof (induction xs)
  case Nil
  then show ?case by (simp add: sort_desc_def)
next
  case (Cons a xs)
  have "sort_desc (a # xs) = sort_insert a (sort_desc xs)" by (simp add: sort_desc_def)
  also have "\<dots> = insort_key rank_key a (sort_desc xs)"
    using Cons.prems by (intro sort_insert_insort) (simp_all add: set_sort_desc)
  also have "\<dots> = insort_key rank_key a (sort_key rank_key xs)"
    using Cons by simp
  finally show ?case by (simp add: sort_key_def)
qed

lemma sorted_rank_key_js_ge:
  assumes "\<forall>r\<in>set xs. similarity r \<noteq> NaN" and "sorted (map rank_key xs)"
  shows "sorted_wrt js_ge (map similarity xs)"
  using assms
  by (induction xs) (auto simp: rank_key_def js_ge_desc_key)

text \<open>
  With \<open>topK \<ge> 1\<close> and no \<open>NaN\<close> similarity the loop keeps the first \<open>topK\<close> entries of the
  stable descending sort of what it has seen: a newcomer is placed behind the entries that
  score at least as much, and the last entry is the one that is dropped.
\<close>

lemma dropWhile_sorted_greater:
  fixes f :: "'a \<Rightarrow> 'b::linorder"
  shows "sorted (map f s) \<Longrightarrow> y \<in> set (dropWhile (\<lambda>y. f y \<le> c) s) \<Longrightarrow> c < f y"
proof (induction s)
  case Nil
  then show ?case by simp
next
  case (Cons a s)
  show ?case
  proof (cases "f a \<le> c")
    case True
    with Cons show ?thesis by simp
  next
    case False
    with Cons.prems show ?thesis by (auto simp: not_le)
  qed
qed

lemma sort_key_snoc:
  fixes f :: "'a \<Rightarrow> 'b::linorder"
  shows "sort_key f (xs @ [e]) =
     takeWhile (\<lambda>y. f y \<le> f e) (sort_key f xs) @ e # dropWhile (\<lambda>y. f y \<le> f e) (sort_key f xs)"
proof (rule properties_for_sort_key)
  let ?s = "sort_key f xs"
  let ?A = "takeWhile (\<lambda>y. f y \<le> f e) ?s"
  let ?B = "dropWhile (\<lambda>y. f y \<le> f e) ?s"
  have AB: "?A @ ?B = ?s" by simp
  have inA: "f y \<le> f e" if "y \<in> set ?A" for y using that by (auto dest: set_takeWhileD)
  have inB: "f e < f y" if "y \<in> set ?B" for y
    using dropWhile_sorted_greater[of f ?s y "f e"] that by simp
  have "mset ?A + mset ?B = mset (?A @ ?B)" by (simp only: mset_append)
  also have "\<dots> = mset ?s" by (simp only: AB)
  also have "\<dots> = mset xs" by simp
  finally show "mset (?A @ e # ?B) = mset (xs @ [e])" by simp
  have srt: "sorted_wrt (\<lambda>x y. f x \<le> f y) ?s"
    using sorted_sort_key[of f xs] by (simp only: sorted_map)
  have sA: "sorted_wrt (\<lambda>x y. f x \<le> f y) ?A"
    using srt by (rule sorted_wrt_takeWhile)
  have sB: "sorted_wrt (\<lambda>x y. f x \<le> f y) ?B"
    using srt by (rule sorted_wrt_dropWhile)
  have "sorted_wrt (\<lambda>x y. f x \<le> f y) (?A @ e # ?B)"
    using sA sB inA inB by (fastforce simp: sorted_wrt_append)
  then show "sorted (map f (?A @ e # ?B))"
    by (simp only: sorted_map)
  fix k
  assume "k \<in> set (?A @ e # ?B)"
  have conv: "(\<lambda>x. f k = f x) = (\<lambda>x. f x = f k)" by auto
  have stable: "filter (\<lambda>x. f x = f k) ?s = filter (\<lambda>x. f x = f k) xs"
    by (rule sort_key_stable)
  have "filter (\<lambda>x. f x = f k) ?A @ filter (\<lambda>x. f x = f k) ?B
      = filter (\<lambda>x. f x = f k) (?A @ ?B)"
    by (simp only: filter_append)
  also have "\<dots> = filter (\<lambda>x. f x = f k) xs"
    by (simp only: AB stable)
  finally have split: "filter (\<lambda>x. f x = f k) ?A @ filter (\<lambda>x. f x = f k) ?B
      = filter (\<lambda>x. f x = f k) xs" .
  show "filter (\<lambda>x. f k = f x) (?A @ e # ?B) = filter (\<lambda>x. f k = f x) (xs @ [e])"
    unfolding conv
  proof (cases "f e = f k")
    case True
    have "f x \<noteq> f k" if "x \<in> set ?B" for x
      using inB[OF that] True by simp
    then have "filter (\<lambda>x. f x = f k) ?B = []"
      by (simp only: filter_empty_conv) blast
    with split True show "filter (\<lambda>x. f x = f k) (?A @ e # ?B)
        = filter (\<lambda>x. f x = f k) (xs @ [e])" by simp
  next
    case False
    with split show "filter (\<lambda>x. f x = f k) (?A @ e # ?B)
        = filter (\<lambda>x. f x = f k) (xs @ [e])" by simp
  qed
qed

lemma takeWhile_dropWhile_append:
  assumes "\<forall>x\<in>set A. P x" and "B = [] \<or> \<not> P (hd B)"
  shows "takeWhile P (A @ B) = A" and "dropWhile P (A @ B) = B"
  using assms by (cases B; simp)+

lemma sorted_take_key: "sorted (map f xs) \<Longrightarrow> sorted (map f (take n xs))"
  by (simp add: sorted_wrt_take flip: take_map)

lemma heap_insert_full:
  assumes K: "1 \<le> K" and len: "K \<le> length p"
    and fin: "\<forall>r\<in>set p. similarity r \<noteq> NaN" and fin_e: "similarity e \<noteq> NaN"
  shows "heap_insert (int K) (take K (sort_key rank_key p)) e
           = Inr (take K (sort_key rank_key (p @ [e])))"
proof -
  let ?P = "\<lambda>y. rank_key y \<le> rank_key e"
  let ?s = "sort_key rank_key p"
  let ?A = "takeWhile ?P ?s"
  let ?B = "dropWhile ?P ?s"
  let ?h = "take K ?s"
  have AB: "?A @ ?B = ?s" by simp
  have ls: "length ?s = length p" by simp
  have lh: "length ?h = K" using len ls by simp
  have hne: "?h \<noteq> []" by (metis K lh list.size(3) not_one_le_zero)
  have last_h: "last ?h = ?s ! (K - 1)"
    using K len ls hne lh by (simp add: last_conv_nth)
  have fin_s: "\<forall>r\<in>set ?s. similarity r \<noteq> NaN" using fin by simp
  have "last ?h \<in> set ?s" using hne by (metis in_set_takeD last_in_set)
  with fin_s have fin_last: "similarity (last ?h) \<noteq> NaN" by blast
  have gt: "js_gt (similarity e) (similarity (last ?h)) = (\<not> ?P (last ?h))"
    using fin_last fin_e by (simp add: js_gt_def js_lt_desc_key rank_key_def not_le)
  have allA: "\<forall>x\<in>set ?A. ?P x" by (auto dest: set_takeWhileD)
  have srt: "sorted (map rank_key ?s)" by (rule sorted_sort_key)
  have snoc: "sort_key rank_key (p @ [e]) = ?A @ e # ?B" by (rule sort_key_snoc)
  show ?thesis
  proof (cases "?P (last ?h)")
    case False
    then have notP: "\<not> ?P (?s ! (K - 1))" using last_h by simp
    have lA: "length ?A \<le> K - 1"
    proof (rule ccontr)
      assume "\<not> length ?A \<le> K - 1"
      then have "K - 1 < length ?A" by simp
      then have "?A ! (K - 1) = ?s ! (K - 1)" and "?A ! (K - 1) \<in> set ?A"
        by (rule takeWhile_nth, rule nth_mem)
      with allA notP show False by metis
    qed
    let ?B' = "take (K - 1 - length ?A) ?B"
    have bl: "butlast ?h = ?A @ ?B'"
    proof -
      have "butlast ?h = take (K - 1) ?s" using len ls by (simp add: butlast_take)
      also have "\<dots> = take (K - 1) (?A @ ?B)" by (simp only: AB)
      also have "\<dots> = take (K - 1) ?A @ ?B'" by (simp only: take_append)
      also have "take (K - 1) ?A = ?A" using lA by simp
      finally show ?thesis .
    qed
    have B': "?B' = [] \<or> \<not> ?P (hd ?B')"
    proof (cases "?B' = []")
      case True
      then show ?thesis by simp
    next
      case False
      then have "?B \<noteq> []" and "hd ?B' = hd ?B" by (auto simp: hd_take)
      then show ?thesis using hd_dropWhile[of ?P ?s] by simp
    qed
    have "sorted (map rank_key (take (K - 1) ?s))"
      using srt by (rule sorted_take_key)
    then have "sorted (map rank_key (butlast ?h))"
      using len ls by (simp add: butlast_take)
    then have id: "sort_key rank_key (butlast ?h) = butlast ?h" by (rule sort_key_id_if_sorted)
    have "set (butlast ?h) \<subseteq> set ?s"
      by (meson in_set_butlastD in_set_takeD subsetI)
    with fin_s fin_e have "\<forall>r\<in>set (butlast ?h @ [e]). similarity r \<noteq> NaN" by auto
    then have "sort_desc (butlast ?h @ [e]) = sort_key rank_key (butlast ?h @ [e])"
      by (rule sort_desc_sort_key)
    also have "\<dots> = takeWhile ?P (butlast ?h) @ e # dropWhile ?P (butlast ?h)"
      using sort_key_snoc[of rank_key "butlast ?h" e] by (simp only: id)
    also have "\<dots> = ?A @ e # ?B'"
      unfolding bl using takeWhile_dropWhile_append[OF allA B'] by simp
    also have "\<dots> = take K (?A @ e # ?B)"
    proof -
      from lA K have d: "K - length ?A = Suc (K - 1 - length ?A)" by simp
      have "take K (?A @ e # ?B) = take K ?A @ take (K - length ?A) (e # ?B)"
        by (simp only: take_append)
      also have "take K ?A = ?A" using lA by simp
      also have "take (K - length ?A) (e # ?B) = e # ?B'"
        by (simp only: d take_Suc_Cons)
      finally show ?thesis by simp
    qed
    finally have "sort_desc (butlast ?h @ [e]) = take K (sort_key rank_key (p @ [e]))"
      by (simp only: snoc)
    with False gt hne lh show ?thesis
      by (simp add: heap_insert_def list.case_eq_if)
  next
    case True
    then have Plast: "?P (?s ! (K - 1))" using last_h by simp
    have "?P (?s ! i)" if "i < K" for i
    proof (cases "i = K - 1")
      case True
      with Plast show ?thesis by simp
    next
      case False
      with that have "i < K - 1" and "K - 1 < length ?s" using len ls K by simp_all
      with srt have "rank_key (?s ! i) \<le> rank_key (?s ! (K - 1))"
        by (simp add: sorted_iff_nth_mono)
      with Plast show ?thesis by simp
    qed
    then have "K \<le> length ?A"
      using len ls by (intro length_takeWhile_less_P_nth) simp_all
    then have "take K (?A @ e # ?B) = take K ?A" and "take K (?A @ ?B) = take K ?A"
      by (simp_all only: take_append diff_is_0_eq' take_0 append_Nil2)
    then have "take K (?A @ e # ?B) = take K (?A @ ?B)" by (simp only:)
    then have "take K (sort_key rank_key (p @ [e])) = ?h" by (simp only: snoc AB)
    with True gt hne lh show ?thesis
      by (simp add: heap_insert_def list.case_eq_if)
  qed
qed

lemma heap_insert_inv:
  assumes "1 \<le> K" and "heap_inv K p heap"
    and fin: "\<forall>r\<in>set p. similarity r \<noteq> NaN" and fin_e: "similarity e \<noteq> NaN"
  shows "\<exists>heap'. heap_insert (int K) heap e = Inr heap' \<and> heap_inv K (p @ [e]) heap'"
proof (cases "length p < K")
  case True
  with assms(2) have h: "heap = p" by (auto simp: heap_inv_def)
  show ?thesis
  proof (cases "Suc (length p) = K")
    case full: True
    from fin fin_e have "sort_desc (p @ [e]) = sort_key rank_key (p @ [e])"
      by (intro sort_desc_sort_key) auto
    moreover from full have "take K (sort_key rank_key (p @ [e])) = sort_key rank_key (p @ [e])"
      by simp
    ultimately show ?thesis using True full h
      by (auto simp: heap_insert_def heap_inv_def Let_def)
  next
    case False
    with True h show ?thesis
      by (auto simp: heap_insert_def heap_inv_def Let_def)
  qed
next
  case False
  with assms(2) have h: "heap = take K (sort_key rank_key p)" and len: "K \<le> length p"
    by (auto simp: heap_inv_def)
  from heap_insert_full[OF assms(1) len fin fin_e] len show ?thesis
    by (simp add: h heap_inv_def)
qed

lemma item_loop_inv:
  assumes "1 \<le> K" and "heap_inv K p heap"
    and "\<forall>r\<in>set p. similarity r \<noteq> NaN"
    and "\<forall>item\<in>set xs. item_similarity query queryNorm (vector item) \<noteq> NaN"
  shows "\<exists>heap'. item_loop query queryNorm (int K) xs heap = Inr heap'
           \<and> heap_inv K (p @ map (\<lambda>item. with_similarity item
                   (item_similarity query queryNorm (vector item))) xs) heap'"
  using assms(2-)
proof (induction xs arbitrary: p heap)
  case Nil
  then show ?case by simp
next
  case (Cons item xs)
  let ?e = "with_similarity item (item_similarity query queryNorm (vector item))"
  from Cons.prems have fin_e: "similarity ?e \<noteq> NaN" by (simp add: with_similarity_def)
  from heap_insert_inv[OF assms(1) Cons.prems(1,2) fin_e] obtain h where
    h: "heap_insert (int K) heap ?e = Inr h" and inv: "heap_inv K (p @ [?e]) h"
    by blast
  from Cons.prems fin_e have "\<forall>r\<in>set (p @ [?e]). similarity r \<noteq> NaN" by auto
  from Cons.IH[OF inv this] Cons.prems(3) h show ?case by simp
qed

lemma rankByCosine_top_k:
  assumes "1 \<le> topK" and fin: "\<forall>item\<in>set vectors. similarity (scored query item) \<noteq> NaN"
  shows "rankByCosine query vectors topK
           = Inr (take (nat topK) (sort_key rank_key (map (scored query) vectors)))"
proof -
  let ?K = "nat topK"
  let ?p = "map (scored query) vectors"
  from assms have K: "1 \<le> ?K" and topK: "int ?K = topK" by simp_all
  have fin_p: "\<forall>r\<in>set ?p. similarity r \<noteq> NaN" using fin by simp
  have fin': "\<forall>item\<in>set vectors. item_similarity query (query_norm query) (vector item) \<noteq> NaN"
    using fin by (simp add: scored_def with_similarity_def)
  have "heap_inv ?K [] []" using assms by (simp add: heap_inv_def)
  from item_loop_inv[OF K this _ fin'] obtain heap where
    h: "item_loop query (query_norm query) topK vectors [] = Inr heap"
    and inv: "heap_inv ?K ?p heap"
    unfolding topK scored_def[abs_def] by auto
  have "sort_desc heap = take ?K (sort_key rank_key ?p)"
  proof (cases "length ?p < ?K")
    case True
    with inv have "heap = ?p" by (auto simp: heap_inv_def)
    with True fin_p show ?thesis by (simp add: sort_desc_sort_key)
  next
    case False
    with inv have eq: "heap = take ?K (sort_key rank_key ?p)" by (auto simp: heap_inv_def)
    have "set heap \<subseteq> set ?p" unfolding eq by (metis set_sort set_take_subset)
    with fin_p have "sort_desc heap = sort_key rank_key heap"
      by (intro sort_desc_sort_key) blast
    moreover have "sorted (map rank_key heap)"
      unfolding eq using sorted_sort_key by (rule sorted_take_key)
    ultimately show ?thesis using eq by (simp add: sort_key_id_if_sorted)
  qed
  with h show ?thesis
    by (cases "vectors = []") (simp_all add: rankByCosine_item_loop)
qed

lemma rankByCosine_returns_sorted:
  assumes fin: "\<forall>item\<in>set vectors. similarity (scored query item) \<noteq> NaN"
    and res: "rankByCosine query vectors topK = Inr res"
  shows "sorted_wrt js_ge (map similarity res)"
    and "subseq (filter (\<lambda>r. similarity r = s) res) (map (scored query) vectors)"
proof -
  let ?p = "map (scored query) vectors"
  let ?s = "sort_key rank_key ?p"
  have shape: "res = take (nat topK) ?s"
  proof (cases "vectors = []")
    case True
    with res show ?thesis by (simp add: rankByCosine_item_loop)
  next
    case False
    with res rankByCosine_nonpositive_topK[of vectors topK query] have "1 \<le> topK"
      by (cases "topK \<le> 0") simp_all
    from rankByCosine_top_k[OF this fin] res show ?thesis by simp
  qed
  have fin_p: "\<forall>r\<in>set ?p. similarity r \<noteq> NaN" using fin by simp
  have "set res \<subseteq> set ?p" unfolding shape by (metis set_sort set_take_subset)
  with fin_p have "\<forall>r\<in>set res. similarity r \<noteq> NaN" by blast
  moreover have "sorted (map rank_key res)"
    unfolding shape using sorted_sort_key by (rule sorted_take_key)
  ultimately show "sorted_wrt js_ge (map similarity res)" by (rule sorted_rank_key_js_ge)
  have key: "(\<lambda>r. similarity r = s) = (\<lambda>r. rank_key r = desc_key s)"
    by (simp add: rank_key_def desc_key_inj)
  have "subseq (take (nat topK) ?s) ?s"
    by (metis append_take_drop_id prefix_def prefix_imp_subseq)
  then have "subseq (filter (\<lambda>r. similarity r = s) res) (filter (\<lambda>r. similarity r = s) ?s)"
    unfolding shape by (rule subseq_filter)
  also have "filter (\<lambda>r. similarity r = s) ?s = filter (\<lambda>r. similarity r = s) ?p"
    unfolding key by (rule sort_key_stable)
  finally show "subseq (filter (\<lambda>r. similarity r = s) res) ?p"
    by (rule subseq_order.order_trans) simp
qed

text \<open>
  Claim C2. \<open>rankByCosine\<close> called with \<open>topK \<le> 0\<close> yields an empty result for every
  query vector and every candidate list, non-empty lists included, and raises nothing. The
  code does so only for the empty list. With a candidate and \<open>topK = 0\<close> the heap is empty,
  \<open>topKHeap.length < topK\<close> is false, and the other branch reads
  \<open>topKHeap[topKHeap.length - 1].similarity\<close> of an empty array: a \<open>TypeError\<close>.
\<close>

theorem rankByCosine_topK_zero_throws:
  "rankByCosine [Fin 1] [example_item 1 [Fin 1]] 0 = Inl TypeError"
  by (simp add: rankByCosine_item_loop heap_insert_def)

text \<open>
  Claim C6. A candidate whose vector length differs from the query's is skipped by
  \<open>rankByCosine\<close>: similarity 0, or left out. The code gives 0 to a candidate that is
  shorter than the query (the read past its end poisons both accumulators), but a longer
  candidate is scored on its first \<open>query.length\<close> entries. The query \<open>[1, 0]\<close> and the
  candidate \<open>[1, 0, 5]\<close> get similarity 1, where \<open>cosine\<close>, which has the length guard,
  gives 0. Nothing is thrown in either case.
\<close>

theorem rankByCosine_longer_vector_scored:
  "cosine [Fin 1, Fin 0] [Fin 1, Fin 0, Fin 5] = Fin 0
   \<and> rankByCosine [Fin 1, Fin 0] [example_item 1 [Fin 1, Fin 0, Fin 5]] 1
       = Inr [with_similarity (example_item 1 [Fin 1, Fin 0, Fin 5]) (Fin 1)]"
  by (simp add: cosine_def rankByCosine_item_loop heap_insert_def item_similarity_def
      query_norm_def sum_products_def sort_desc_def example_item_def js_gt_def exact_doubles)

lemma rankByCosine_shorter_vector_zero:
  "rankByCosine [Fin 1, Fin 0] [example_item 1 [Fin 1]] 1
     = Inr [with_similarity (example_item 1 [Fin 1]) (Fin 0)]"
  by (simp add: rankByCosine_item_loop heap_insert_def item_similarity_def
      query_norm_def sum_products_def sort_desc_def example_item_def js_gt_def exact_doubles)

text \<open>
  Claim C7, as amended. With \<open>topK\<close> at least the number of candidates \<open>rankByCosine\<close>
  returns, and returns every candidate exactly once, for every input. Whenever none of
  the similarities computed for the candidates is \<open>NaN\<close>, what it returns is sorted by
  descending similarity, and candidates of equal similarity stand in it in the order
  they were supplied; more precisely, with \<open>topK \<ge> 1\<close> it then returns the first \<open>topK\<close>
  entries of the stable sort of all candidates by descending similarity, so that among
  equal similarities the candidate supplied first is the one kept and the one listed
  first. The similarities are the numbers the code computes, in binary64 arithmetic.
\<close>

theorem rankByCosine_sorted_complete_stable:
  "(int (length vectors) \<le> topK \<longrightarrow>
      (\<exists>res. rankByCosine query vectors topK = Inr res \<and>
         mset res = mset (map (scored query) vectors) \<and>
         mset (map VectorItem.truncate res) = mset vectors)) \<and>
   ((\<forall>item\<in>set vectors. similarity (scored query item) \<noteq> NaN) \<longrightarrow>
      (\<forall>res. rankByCosine query vectors topK = Inr res \<longrightarrow>
         sorted_wrt js_ge (map similarity res) \<and>
         (\<forall>s. subseq (filter (\<lambda>r. similarity r = s) res) (map (scored query) vectors))) \<and>
      (1 \<le> topK \<longrightarrow>
         rankByCosine query vectors topK
           = Inr (take (nat topK)
                    (sort_key (\<lambda>r. desc_key (similarity r)) (map (scored query) vectors)))))"
proof (intro conjI allI impI)
  assume k: "int (length vectors) \<le> topK"
  then have "int (length ([]::Ranked list) + length vectors) \<le> topK" by simp
  from item_loop_keeps_all[OF this, of query "query_norm query"] obtain heap where
    h: "item_loop query (query_norm query) topK vectors [] = Inr heap" and
    ms: "mset heap = mset (map (scored query) vectors)"
    by (auto simp: scored_def[abs_def])
  have tr: "VectorItem.truncate (scored query item) = item" for item
    by (simp add: scored_def with_similarity_def VectorItem.truncate_def)
  have "mset (map VectorItem.truncate (sort_desc heap))
      = image_mset VectorItem.truncate (mset (sort_desc heap))"
    by simp
  also have "\<dots> = image_mset VectorItem.truncate (mset (map (scored query) vectors))"
    by (simp add: mset_sort_desc ms)
  also have "\<dots> = mset vectors"
    by (simp add: multiset.map_comp comp_def tr)
  finally have "mset (map VectorItem.truncate (sort_desc heap)) = mset vectors" .
  then show "\<exists>res. rankByCosine query vectors topK = Inr res \<and>
         mset res = mset (map (scored query) vectors) \<and>
         mset (map VectorItem.truncate res) = mset vectors"
    using h ms by (auto simp: rankByCosine_item_loop mset_sort_desc)
next
  fix res
  assume "\<forall>item\<in>set vectors. similarity (scored query item) \<noteq> NaN"
    and "rankByCosine query vectors topK = Inr res"
  then show "sorted_wrt js_ge (map similarity res)"
    by (rule rankByCosine_returns_sorted)
next
  fix res s
  assume "\<forall>item\<in>set vectors. similarity (scored query item) \<noteq> NaN"
    and "rankByCosine query vectors topK = Inr res"
  then show "subseq (filter (\<lambda>r. similarity r = s) res) (map (scored query) vectors)"
    by (rule rankByCosine_returns_sorted)
next
  assume "\<forall>item\<in>set vectors. similarity (scored query item) \<noteq> NaN" and "1 \<le> topK"
  then show "rankByCosine query vectors topK
        = Inr (take (nat topK)
                 (sort_key (\<lambda>r. desc_key (similarity r)) (map (scored query) vectors)))"
    by (simp add: rankByCosine_top_k rank_key_def[abs_def])
qed

lemma query_norm_example: "query_norm [Fin 1, Fin 0] = Fin 1"
  by (simp add: query_norm_def sum_products_def exact_doubles)

lemma item_similarity_orthogonal:
  "item_similarity [Fin 1, Fin 0] (Fin 1) [Fin 0, Fin 1] = Fin 0"
  by (simp add: item_similarity_def js_gt_def exact_doubles)

lemma item_similarity_parallel:
  "item_similarity [Fin 1, Fin 0] (Fin 1) [Fin 1, Fin 0] = Fin 1"
  by (simp add: item_similarity_def js_gt_def exact_doubles)

lemma scored_example_orthogonal:
  "scored [Fin 1, Fin 0] (example_item i [Fin 0, Fin 1])
     = with_similarity (example_item i [Fin 0, Fin 1]) (Fin 0)"
  by (simp add: scored_def query_norm_example item_similarity_orthogonal example_item_def)

lemma scored_example_parallel:
  "scored [Fin 1, Fin 0] (example_item i [Fin 1, Fin 0])
     = with_similarity (example_item i [Fin 1, Fin 0]) (Fin 1)"
  by (simp add: scored_def query_norm_example item_similarity_parallel example_item_def)

theorem rankByCosine_sorted_complete_stable_witness:
  "int (length [example_item 1 [Fin 0, Fin 1], example_item 2 [Fin 1, Fin 0],
                example_item 3 [Fin 0, Fin 1]]) \<le> 3
   \<and> list_all (\<lambda>item. similarity (scored [Fin 1, Fin 0] item) \<noteq> NaN)
       [example_item 1 [Fin 0, Fin 1], example_item 2 [Fin 1, Fin 0],
        example_item 3 [Fin 0, Fin 1]]
   \<and> (\<exists>res. rankByCosine [Fin 1, Fin 0]
                 [example_item 1 [Fin 0, Fin 1], example_item 2 [Fin 1, Fin 0],
                  example_item 3 [Fin 0, Fin 1]] 3
               = Inr res
         \<and> sorted_wrt js_ge (map similarity res)
         \<and> subseq (filter (\<lambda>r. similarity r = Fin 0) res)
             (map (scored [Fin 1, Fin 0])
                [example_item 1 [Fin 0, Fin 1], example_item 2 [Fin 1, Fin 0],
                 example_item 3 [Fin 0, Fin 1]])
         \<and> mset (map VectorItem.truncate res)
             = mset [example_item 1 [Fin 0, Fin 1], example_item 2 [Fin 1, Fin 0],
                     example_item 3 [Fin 0, Fin 1]])
   \<and> (1::int) \<le> 2
   \<and> rankByCosine [Fin 1, Fin 0]
         [example_item 1 [Fin 0, Fin 1], example_item 2 [Fin 1, Fin 0],
          example_item 3 [Fin 0, Fin 1]] 2
       = Inr [with_similarity (example_item 2 [Fin 1, Fin 0]) (Fin 1),
              with_similarity (example_item 1 [Fin 0, Fin 1]) (Fin 0)]"
proof -
  let ?q = "[Fin 1, Fin 0]"
  let ?vs = "[example_item 1 [Fin 0, Fin 1], example_item 2 [Fin 1, Fin 0],
              example_item 3 [Fin 0, Fin 1]]"
  note inst = rankByCosine_sorted_complete_stable [of ?vs 3 ?q]
  have len: "int (length ?vs) \<le> 3" by simp
  have fin: "\<forall>item\<in>set ?vs. similarity (scored ?q item) \<noteq> NaN"
    by (simp add: scored_example_orthogonal scored_example_parallel with_similarity_def)
  then have fin': "list_all (\<lambda>item. similarity (scored ?q item) \<noteq> NaN) ?vs"
    by (simp only: list_all_iff)
  from inst len obtain res where
    r: "rankByCosine ?q ?vs 3 = Inr res" and
    m: "mset (map VectorItem.truncate res) = mset ?vs"
    by blast
  from inst fin r have "sorted_wrt js_ge (map similarity res)"
    and "subseq (filter (\<lambda>r. similarity r = Fin 0) res) (map (scored ?q) ?vs)"
    by blast+
  with r m have all: "\<exists>res. rankByCosine ?q ?vs 3 = Inr res
         \<and> sorted_wrt js_ge (map similarity res)
         \<and> subseq (filter (\<lambda>r. similarity r = Fin 0) res) (map (scored ?q) ?vs)
         \<and> mset (map VectorItem.truncate res) = mset ?vs"
    by blast
  have two: "take (nat 2) (sort_key (\<lambda>r. desc_key (similarity r)) (map (scored ?q) ?vs))
      = [with_similarity (example_item 2 [Fin 1, Fin 0]) (Fin 1),
         with_similarity (example_item 1 [Fin 0, Fin 1]) (Fin 0)]"
    by (simp add: scored_example_orthogonal scored_example_parallel with_similarity_def
        numeral_2_eq_2)
  from rankByCosine_sorted_complete_stable [of ?vs 2 ?q] fin
  have "rankByCosine ?q ?vs 2
      = Inr (take (nat 2) (sort_key (\<lambda>r. desc_key (similarity r)) (map (scored ?q) ?vs)))"
    by simp
  with two have "rankByCosine ?q ?vs 2
      = Inr [with_similarity (example_item 2 [Fin 1, Fin 0]) (Fin 1),
             with_similarity (example_item 1 [Fin 0, Fin 1]) (Fin 0)]"
    by (simp only:)
  with len fin' all show ?thesis by simp
qed

text \<open>
  The claim as it stands, sorted for every input, fails where a similarity is \<open>NaN\<close>. The
  candidate \<open>[2 ** 1023, 0]\<close> overflows both accumulators against the query \<open>[2, 0]\<close>:
  its similarity is \<open>Infinity / Infinity\<close>. With \<open>topK = 2\<close> the heap is \<open>[0, NaN]\<close> when the
  third candidate, of similarity 1, arrives; \<open>1 > NaN\<close> is false, so the candidate is
  dropped, and the result is \<open>[0, NaN]\<close>, which is not descending: \<open>0 >= NaN\<close> is false.
  Neither \<open>rankByCosine\<close> nor \<open>cosine\<close>, which gives \<open>NaN\<close> for the same pair, looks at
  whether a value is finite.
\<close>

lemma mul_huge_overflows:
  "to_double (2 * huge) = PInf" "to_double (huge * huge) = PInf"
proof -
  have "(2::real) ^ 1024 \<le> 2 * huge" by (simp add: huge_def)
  then show "to_double (2 * huge) = PInf" by (rule to_double_overflow)
  have "(1::real) \<le> 2 ^ 1022" by (rule one_le_power) simp
  then have "(2::real) * 1 \<le> 2 ^ 1023" by simp
  then have "(2::real) \<le> huge" by (simp add: huge_def)
  moreover have "(0::real) \<le> huge" by (simp add: huge_def)
  ultimately have "2 * huge \<le> huge * huge" by (intro mult_right_mono)
  moreover have "(2::real) ^ 1024 \<le> 2 * huge" by (simp add: huge_def)
  ultimately have "(2::real) ^ 1024 \<le> huge * huge" by linarith
  then show "to_double (huge * huge) = PInf" by (rule to_double_overflow)
qed

lemma query_norm_two: "query_norm [Fin 2, Fin 0] = Fin 2"
  by (simp add: query_norm_def sum_products_def exact_doubles)

lemma item_similarity_two_orthogonal:
  "item_similarity [Fin 2, Fin 0] (Fin 2) [Fin 0, Fin 1] = Fin 0"
  by (simp add: item_similarity_def js_gt_def exact_doubles)

lemma item_similarity_two_parallel:
  "item_similarity [Fin 2, Fin 0] (Fin 2) [Fin 1, Fin 0] = Fin 1"
  by (simp add: item_similarity_def js_gt_def exact_doubles)

lemma item_similarity_overflow:
  "item_similarity [Fin 2, Fin 0] (Fin 2) [Fin huge, Fin 0] = NaN"
  by (simp add: item_similarity_def js_gt_def mul_huge_overflows exact_doubles signed_inf_def)

lemma cosine_overflow: "cosine [Fin 2, Fin 0] [Fin huge, Fin 0] = NaN"
  by (simp add: cosine_def sum_products_def mul_huge_overflows exact_doubles signed_inf_def)

theorem rankByCosine_NaN_unsorted_counterexample:
  "rankByCosine [Fin 2, Fin 0]
       [example_item 1 [Fin 0, Fin 1], example_item 2 [Fin huge, Fin 0],
        example_item 3 [Fin 1, Fin 0]] 2
     = Inr [with_similarity (example_item 1 [Fin 0, Fin 1]) (Fin 0),
            with_similarity (example_item 2 [Fin huge, Fin 0]) NaN]
   \<and> \<not> sorted_wrt js_ge
         (map similarity [with_similarity (example_item 1 [Fin 0, Fin 1]) (Fin 0),
                          with_similarity (example_item 2 [Fin huge, Fin 0]) NaN])
   \<and> scored [Fin 2, Fin 0] (example_item 3 [Fin 1, Fin 0])
       = with_similarity (example_item 3 [Fin 1, Fin 0]) (Fin 1)"
  by (simp add: rankByCosine_item_loop heap_insert_def sort_desc_def scored_def
      query_norm_two item_similarity_two_orthogonal item_similarity_two_parallel
      item_similarity_overflow example_item_def with_similarity_def js_gt_def js_ge_def)

text \<open>
  Rounding is part of the similarity the theorem speaks of. Against the query \<open>[1, 1]\<close>
  the candidate \<open>[1, 1]\<close> gets \<open>2 / (Math.sqrt(2) * Math.sqrt(2))\<close>, which is
  \<open>2 / 2.0000000000000004 = 0.9999999999999998\<close>, and the candidate \<open>[3, 3]\<close> gets
  \<open>6 / (Math.sqrt(2) * Math.sqrt(18)) = 6 / 6 = 1\<close>: with \<open>topK = 1\<close> the second
  candidate is the one returned.
\<close>

lemma query_norm_ones: "query_norm [Fin 1, Fin 1] = Fin root2"
  by (simp add: query_norm_def sum_products_def exact_doubles to_double_sqrt2)

lemma item_similarity_ones:
  "item_similarity [Fin 1, Fin 1] (Fin root2) [Fin 1, Fin 1] = Fin below_one"
  by (simp add: item_similarity_def js_gt_def exact_doubles to_double_sqrt2
      root2_squared_rounds_up two_by_above_two rounded_values)

lemma item_similarity_threes:
  "item_similarity [Fin 1, Fin 1] (Fin root2) [Fin 3, Fin 3] = Fin 1"
  by (simp add: item_similarity_def js_gt_def exact_doubles to_double_3 to_double_6
      to_double_9 to_double_18 to_double_sqrt18 root2_root18_rounds_to_6 rounded_values)

lemma rankByCosine_rounding:
  "scored [Fin 1, Fin 1] (example_item 1 [Fin 1, Fin 1])
     = with_similarity (example_item 1 [Fin 1, Fin 1]) (Fin below_one)
   \<and> below_one < 1
   \<and> rankByCosine [Fin 1, Fin 1]
         [example_item 1 [Fin 1, Fin 1], example_item 2 [Fin 3, Fin 3]] 1
       = Inr [with_similarity (example_item 2 [Fin 3, Fin 3]) (Fin 1)]"
  by (simp add: rankByCosine_item_loop heap_insert_def sort_desc_def scored_def
      query_norm_ones item_similarity_ones item_similarity_threes example_item_def
      with_similarity_def js_gt_def rounded_values)

section \<open>Context assembler: the budget and the source list\<close>

lemma context_loop_included:
  "context_loop chosen maxChars parts srcs cur =
     (parts @ map render_chunk (take (included chosen maxChars cur) chosen),
      foldl track_source srcs (take (included chosen maxChars cur) chosen))"
  by (induction chosen arbitrary: parts srcs cur) (auto simp: Let_def)

lemma buildContext_included:
  "buildContext chosen maxChars =
     \<lparr>contextText = concat (map render_chunk (take (included chosen maxChars 0) chosen)),
      sources = foldl track_source [] (take (included chosen maxChars 0) chosen)\<rparr>"
  by (cases chosen) (simp_all add: buildContext_def context_loop_included)

lemma included_le: "included chosen maxChars cur \<le> length chosen"
  by (induction chosen arbitrary: cur) auto

lemma render_chunk_nonempty: "render_chunk chunk \<noteq> []"
  by (simp add: render_chunk_def)

lemma included_first: "chosen \<noteq> [] \<Longrightarrow> 1 \<le> included chosen maxChars 0"
  by (cases chosen) auto

lemma total_Nil: "total [] = 0"
  by (simp add: total_def)

lemma total_Cons: "total (c # cs) = length (render_chunk c) + total cs"
  by (simp add: total_def)

lemma total_take_mono: "m \<le> n \<Longrightarrow> total (take m cs) \<le> total (take n cs)"
proof (induction cs arbitrary: m n)
  case Nil
  then show ?case by simp
next
  case (Cons c cs)
  then show ?case by (cases m; cases n) (auto simp: total_Cons total_Nil)
qed

lemma included_within:
  "0 < cur \<or> 1 < included chosen maxChars cur \<Longrightarrow>
   0 < included chosen maxChars cur \<Longrightarrow>
   int (cur + total (take (included chosen maxChars cur) chosen)) \<le> maxChars"
proof (induction chosen arbitrary: cur)
  case Nil
  then show ?case by simp
next
  case (Cons c cs)
  let ?cur' = "cur + length (render_chunk c)"
  from Cons.prems(2) have go: "\<not> (int ?cur' > maxChars \<and> cur > 0)"
    by (auto split: if_splits)
  have pos: "0 < ?cur'" using render_chunk_nonempty[of c] by simp
  show ?case
  proof (cases "included cs maxChars ?cur' = 0")
    case True
    with Cons.prems go show ?thesis by (auto simp: total_def)
  next
    case False
    have a: "0 < ?cur' \<or> 1 < included cs maxChars ?cur'" using pos by blast
    have b: "0 < included cs maxChars ?cur'" using False by simp
    from Cons.IH[OF a b] go show ?thesis by (auto simp: total_Cons add.assoc)
  qed
qed

lemma included_stop:
  "included chosen maxChars cur < length chosen \<Longrightarrow>
   maxChars < int (cur + total (take (Suc (included chosen maxChars cur)) chosen))"
proof (induction chosen arbitrary: cur)
  case Nil
  then show ?case by simp
next
  case (Cons c cs)
  show ?case
  proof (cases "int (cur + length (render_chunk c)) > maxChars \<and> cur > 0")
    case True
    then show ?thesis by (simp add: total_def)
  next
    case False
    with Cons.prems have "included cs maxChars (cur + length (render_chunk c)) < length cs"
      by (auto split: if_splits)
    from Cons.IH[OF this] False show ?thesis by (simp add: total_Cons add.assoc)
  qed
qed

lemma buildContext_nonempty:
  "chosen \<noteq> [] \<Longrightarrow> contextText (buildContext chosen maxChars) \<noteq> []"
proof -
  assume ne: "chosen \<noteq> []"
  then obtain c cs where c: "chosen = c # cs" by (cases chosen) auto
  from included_first[OF ne, of maxChars] obtain k where k: "included chosen maxChars 0 = Suc k"
    by (cases "included chosen maxChars 0") auto
  show ?thesis
    by (simp add: buildContext_included k c render_chunk_nonempty)
qed

text \<open>
  Claim C5. \<open>buildContext\<close> appends the fragments greedily in the given order: the
  context is the rendering of a prefix of \<open>n\<close> fragments; the first fragment is always in
  it; every prefix of two or more fragments that was appended is within \<open>maxChars\<close>; the
  fragment after the prefix, when there is one, would overflow (the loop stops there and
  appends nothing behind it); so the length of the context exceeds \<open>maxChars\<close> only when
  the context is the rendering of the first fragment alone and that alone exceeds it.
\<close>

theorem buildContext_greedy_bounded:
  "\<exists>n\<le>length chosen.
     contextText (buildContext chosen maxChars) = concat (map render_chunk (take n chosen))
     \<and> (chosen \<noteq> [] \<longrightarrow> 1 \<le> n)
     \<and> (\<forall>m. 1 < m \<and> m \<le> n \<longrightarrow>
            int (length (concat (map render_chunk (take m chosen)))) \<le> maxChars)
     \<and> (n < length chosen \<longrightarrow>
            maxChars < int (length (concat (map render_chunk (take (Suc n) chosen)))))
     \<and> (int (length (contextText (buildContext chosen maxChars))) \<le> maxChars
          \<or> contextText (buildContext chosen maxChars)
               = concat (map render_chunk (take 1 chosen))
            \<and> maxChars < int (length (concat (map render_chunk (take 1 chosen)))))"
proof -
  let ?n = "included chosen maxChars 0"
  have ctx: "contextText (buildContext chosen maxChars)
      = concat (map render_chunk (take ?n chosen))"
    by (simp add: buildContext_included)
  have within: "int (total (take ?n chosen)) \<le> maxChars" if "1 < ?n"
    using included_within[of 0 chosen maxChars] that by simp
  have prefix_within: "int (length (concat (map render_chunk (take m chosen)))) \<le> maxChars"
    if "1 < m \<and> m \<le> ?n" for m
  proof -
    from that have "total (take m chosen) \<le> total (take ?n chosen)"
      by (intro total_take_mono) simp
    moreover from that have "int (total (take ?n chosen)) \<le> maxChars"
      by (intro within) simp
    ultimately show ?thesis by (simp add: total_def)
  qed
  have stop: "maxChars < int (length (concat (map render_chunk (take (Suc ?n) chosen))))"
    if "?n < length chosen"
    using included_stop[OF that] by (simp add: total_def)
  have bound: "int (length (contextText (buildContext chosen maxChars))) \<le> maxChars
      \<or> contextText (buildContext chosen maxChars) = concat (map render_chunk (take 1 chosen))
        \<and> maxChars < int (length (concat (map render_chunk (take 1 chosen))))"
  proof (cases "1 < ?n")
    case True
    from within[OF True] show ?thesis by (simp add: ctx total_def)
  next
    case False
    show ?thesis
    proof (cases chosen)
      case Nil
      then show ?thesis by (auto simp: buildContext_def)
    next
      case (Cons c cs)
      with False included_first[of chosen maxChars] have one: "?n = 1" by simp
      show ?thesis
      proof (cases "int (length (render_chunk c)) \<le> maxChars")
        case True
        then show ?thesis unfolding ctx one using Cons by simp
      next
        case False
        then show ?thesis unfolding ctx one using Cons by simp
      qed
    qed
  qed
  show ?thesis
    apply (rule exI[of _ ?n])
    using ctx prefix_within stop bound included_le[of chosen maxChars 0]
      included_first[of chosen maxChars]
    apply (intro conjI)
         apply blast+
    done
qed

lemma show_nat_digit: "n < 10 \<Longrightarrow> show_nat n = [digit_char n]"
  by (subst show_nat.simps) simp

lemma length_render_example:
  "0 \<le> i \<Longrightarrow> i < 10 \<Longrightarrow> length (render_chunk (example_chunk i)) = 26"
  by (simp add: render_chunk_def example_chunk_def number_to_string_def show_nat_digit NL_def)

theorem buildContext_greedy_bounded_witness:
  "[example_chunk 0, example_chunk 1, example_chunk 2] \<noteq> []
   \<and> contextText (buildContext [example_chunk 0, example_chunk 1, example_chunk 2] 60)
       = render_chunk (example_chunk 0) @ render_chunk (example_chunk 1)
   \<and> int (length (contextText
              (buildContext [example_chunk 0, example_chunk 1, example_chunk 2] 60))) \<le> 60
   \<and> 60 < int (length (concat (map render_chunk
                 [example_chunk 0, example_chunk 1, example_chunk 2])))"
proof -
  let ?cs = "[example_chunk 0, example_chunk 1, example_chunk 2]"
  from buildContext_greedy_bounded [of ?cs 60] obtain n where
    le: "n \<le> length ?cs"
    and ctx: "contextText (buildContext ?cs 60) = concat (map render_chunk (take n ?cs))"
    and first: "?cs \<noteq> [] \<longrightarrow> 1 \<le> n"
    and within: "\<forall>m. 1 < m \<and> m \<le> n \<longrightarrow>
        int (length (concat (map render_chunk (take m ?cs)))) \<le> 60"
    and stop: "n < length ?cs \<longrightarrow>
        60 < int (length (concat (map render_chunk (take (Suc n) ?cs))))"
    by blast
  have two: "length (concat (map render_chunk (take (Suc (Suc 0)) ?cs))) = 52"
    and three: "length (concat (map render_chunk (take 3 ?cs))) = 78"
    by (simp_all add: length_render_example)
  from first have "1 \<le> n" by simp
  moreover have "n \<noteq> 1"
  proof
    assume "n = 1"
    with stop two show False by simp
  qed
  moreover have "n \<noteq> 3"
  proof
    assume "n = 3"
    with within have "1 < (3::nat) \<and> (3::nat) \<le> n \<longrightarrow>
        int (length (concat (map render_chunk (take 3 ?cs)))) \<le> 60"
      by blast
    with \<open>n = 3\<close> have "int (length (concat (map render_chunk (take 3 ?cs)))) \<le> 60"
      by simp
    with three show False by simp
  qed
  ultimately have n: "n = 2" using le by simp
  have "take 2 ?cs = [example_chunk 0, example_chunk 1]" by (simp add: numeral_2_eq_2)
  with ctx n have c: "contextText (buildContext ?cs 60)
      = render_chunk (example_chunk 0) @ render_chunk (example_chunk 1)"
    by simp
  then show ?thesis by (simp add: length_render_example)
qed

text \<open>The source key is injective: deduplicating by key is deduplicating by pair.\<close>

lemma of_char_digit: "d < 10 \<Longrightarrow> of_char (digit_char d) = (48 + d :: nat)"
  by (simp add: digit_char_def)

lemma read_show_nat: "read_nat (show_nat n) = n"
proof (induction n rule: show_nat.induct)
  case (1 n)
  show ?case
  proof (cases "n < 10")
    case True
    then show ?thesis by (subst show_nat.simps) (simp add: read_nat_def of_char_digit)
  next
    case False
    with 1 have "read_nat (show_nat (n div 10)) = n div 10" by simp
    with False show ?thesis
      by (subst show_nat.simps) (simp add: read_nat_def of_char_digit)
  qed
qed

lemma show_nat_chars: "c \<in> set (show_nat n) \<Longrightarrow> \<exists>d<10. c = digit_char d"
proof (induction n rule: show_nat.induct)
  case (1 n)
  show ?case
  proof (cases "n < 10")
    case True
    with "1.prems" show ?thesis by (subst (asm) show_nat.simps) auto
  next
    case False
    with "1.prems" have "c \<in> set (show_nat (n div 10)) \<or> c = digit_char (n mod 10)"
      by (subst (asm) show_nat.simps) auto
    with 1 False show ?thesis by (metis mod_less_divisor zero_less_numeral)
  qed
qed

lemma show_nat_nonempty: "show_nat n \<noteq> []"
  by (subst show_nat.simps) simp

lemma digit_not_hash: "d < 10 \<Longrightarrow> digit_char d \<noteq> CHR ''#''"
  using of_char_digit[of d]
  by (auto simp del: of_char_eq_iff simp: of_char_eq_iff[symmetric, where 'a = nat])

lemma digit_not_minus: "d < 10 \<Longrightarrow> digit_char d \<noteq> CHR ''-''"
  using of_char_digit[of d]
  by (auto simp del: of_char_eq_iff simp: of_char_eq_iff[symmetric, where 'a = nat])

lemma hash_not_in_show_nat: "CHR ''#'' \<notin> set (show_nat n)"
proof
  assume "CHR ''#'' \<in> set (show_nat n)"
  from show_nat_chars[OF this] digit_not_hash show False by metis
qed

lemma minus_not_in_show_nat: "CHR ''-'' \<notin> set (show_nat n)"
proof
  assume "CHR ''-'' \<in> set (show_nat n)"
  from show_nat_chars[OF this] digit_not_minus show False by metis
qed

lemma hash_not_in_number: "CHR ''#'' \<notin> set (number_to_string i)"
  by (simp add: number_to_string_def hash_not_in_show_nat)

lemma show_nat_inj: "show_nat m = show_nat n \<Longrightarrow> m = n"
  by (metis read_show_nat)

lemma number_to_string_inj: "number_to_string i = number_to_string j \<Longrightarrow> i = j"
proof -
  assume eq: "number_to_string i = number_to_string j"
  have hd_nat: "hd (show_nat n) \<noteq> CHR ''-''" for n
    using minus_not_in_show_nat[of n] show_nat_nonempty[of n] by (metis hd_in_set)
  show "i = j"
  proof (cases "i < 0"; cases "j < 0")
    assume "i < 0" "j < 0"
    with eq have "nat (- i) = nat (- j)" by (auto simp: number_to_string_def dest: show_nat_inj)
    with \<open>i < 0\<close> \<open>j < 0\<close> show ?thesis by simp
  next
    assume "i < 0" "\<not> j < 0"
    with eq have "CHR ''-'' # show_nat (nat (- i)) = show_nat (nat j)"
      by (simp add: number_to_string_def)
    then have "hd (show_nat (nat j)) = CHR ''-''" by (metis list.sel(1))
    with hd_nat show ?thesis by blast
  next
    assume "\<not> i < 0" "j < 0"
    with eq have "show_nat (nat i) = CHR ''-'' # show_nat (nat (- j))"
      by (simp add: number_to_string_def)
    then have "hd (show_nat (nat i)) = CHR ''-''" by (metis list.sel(1))
    with hd_nat show ?thesis by blast
  next
    assume "\<not> i < 0" "\<not> j < 0"
    with eq have "nat i = nat j" by (auto simp: number_to_string_def dest: show_nat_inj)
    with \<open>\<not> i < 0\<close> \<open>\<not> j < 0\<close> show ?thesis by simp
  qed
qed

lemma split_at_last_sep:
  assumes "a @ c # s = b @ c # t" and "c \<notin> set s" and "c \<notin> set t"
  shows "a = b \<and> s = t"
proof -
  from assms(1) have "rev (a @ c # s) = rev (b @ c # t)" by simp
  then have eq: "rev s @ c # rev a = rev t @ c # rev b" by simp
  have "takeWhile (\<lambda>x. x \<noteq> c) (rev s @ c # rev a) = rev s"
    using assms(2) by (auto simp: takeWhile_tail)
  moreover have "takeWhile (\<lambda>x. x \<noteq> c) (rev t @ c # rev b) = rev t"
    using assms(3) by (auto simp: takeWhile_tail)
  ultimately have "rev s = rev t" using eq by simp
  with eq show ?thesis by simp
qed

lemma source_key_inj: "source_key f i = source_key g j \<Longrightarrow> f = g \<and> i = j"
proof -
  assume "source_key f i = source_key g j"
  then have "f @ CHR ''#'' # number_to_string i = g @ CHR ''#'' # number_to_string j"
    by (simp add: source_key_def)
  from split_at_last_sep[OF this hash_not_in_number hash_not_in_number]
  show ?thesis by (auto dest: number_to_string_inj)
qed

lemma track_source_eq:
  "track_source srcs chunk =
     (if source_ref chunk \<in> set srcs then srcs else srcs @ [source_ref chunk])"
proof -
  have "list_ex (\<lambda>s. source_key (fst s) (snd s)
                    = source_key (filename chunk) (chunkIndex chunk)) srcs
        \<longleftrightarrow> source_ref chunk \<in> set srcs"
    by (force simp: list_ex_iff source_ref_def dest: source_key_inj)
  then show ?thesis by (simp add: track_source_def Let_def source_ref_def)
qed

lemma first_seen_snoc:
  "first_seen (xs @ [x]) = (if x \<in> set xs then first_seen xs else first_seen xs @ [x])"
  by (simp add: first_seen_def)

lemma set_first_seen: "set (first_seen xs) = set xs"
  by (simp add: first_seen_def)

lemma distinct_first_seen: "distinct (first_seen xs)"
  by (simp add: first_seen_def)

lemma foldl_track_source: "foldl track_source [] cs = first_seen (map source_ref cs)"
proof (induction cs rule: rev_induct)
  case Nil
  then show ?case by (simp add: first_seen_def)
next
  case (snoc c cs)
  then show ?case
    by (simp add: track_source_eq first_seen_snoc set_first_seen)
qed

text \<open>
  Claim C10. The source list of \<open>buildContext\<close> holds each (filename, chunkIndex) pair at
  most once, in the order of first occurrence, and holds exactly the pairs of the
  fragments that went into the context: with the context being the rendering of the first
  \<open>n\<close> fragments, the source list is the first-seen deduplication of the pairs of those
  \<open>n\<close> fragments, so a fragment cut off by the budget contributes nothing.
\<close>

theorem buildContext_sources_first_seen:
  "\<exists>n\<le>length chosen.
     contextText (buildContext chosen maxChars) = concat (map render_chunk (take n chosen))
     \<and> sources (buildContext chosen maxChars) = first_seen (map source_ref (take n chosen))
     \<and> distinct (sources (buildContext chosen maxChars))
     \<and> set (sources (buildContext chosen maxChars)) = source_ref ` set (take n chosen)"
proof -
  let ?n = "included chosen maxChars 0"
  have "sources (buildContext chosen maxChars) = first_seen (map source_ref (take ?n chosen))"
    by (simp add: buildContext_included foldl_track_source)
  moreover have "contextText (buildContext chosen maxChars)
      = concat (map render_chunk (take ?n chosen))"
    by (simp add: buildContext_included)
  ultimately show ?thesis
    using included_le[of chosen maxChars 0]
    by (intro exI[of _ ?n]) (simp add: distinct_first_seen set_first_seen)
qed

section \<open>Retrieval orchestrator: the fallback\<close>

lemma retrieve_reached:
  assumes "reaches_retrieval w req queryVector"
  shows "retrieve finish cfg w req =
     finish cfg w (question req) queryVector
       (fetch_embeddings cfg w (conversationId req)
          (prefilter cfg w (question req) (conversationId req)))"
proof -
  from assms have q: "question req \<noteq> []" by (auto simp: reaches_retrieval_def trim_Nil)
  from assms q show ?thesis
    by (auto simp: reaches_retrieval_def retrieve_def Let_def split: option.splits list.splits)
qed

lemma fetch_fallback:
  assumes "fts5_query w (fts_escape q) cid (PREFILTER_LIMIT cfg) = None
         \<or> fts5_query w (fts_escape q) cid (PREFILTER_LIMIT cfg) = Some []"
  shows "fetch_embeddings cfg w cid (prefilter cfg w q cid) =
           take (MAX_EMBEDDINGS_SEARCH cfg) (filter (in_scope cid) (embedding_table w))"
proof -
  from assms have "prefilter cfg w q cid = []" by (auto simp: prefilter_def)
  then show ?thesis by (simp add: fetch_embeddings_def)
qed

lemma vectorRows_nonempty: "\<exists>emb\<in>set rows. usable emb \<Longrightarrow> vectorRows rows \<noteq> []"
  by (auto simp: vectorRows_def filter_empty_conv)

lemma answer_query_succeeds:
  assumes "1 \<le> TOP_K cfg" and "\<exists>emb\<in>set rows. usable emb"
    and "\<forall>p. \<exists>t. generateWithOllama w p = Inr t"
  shows "\<exists>ans. answer_query cfg w q queryVector rows = Inr ans"
proof -
  from assms(2) have rows: "rows \<noteq> []" by auto
  from rankByCosine_returns_some[OF assms(1) vectorRows_nonempty[OF assms(2)]]
  obtain chosen where ch: "rankByCosine queryVector (vectorRows rows) (TOP_K cfg) = Inr chosen"
    and ne: "chosen \<noteq> []" by blast
  from ne have
    "contextText (buildContext (map to_chunk_source chosen) (MAX_CONTEXT_CHARS cfg)) \<noteq> []"
    by (intro buildContext_nonempty) simp
  moreover from assms(3) obtain t where
    "generateWithOllama w
       (query_prompt q
          (contextText (buildContext (map to_chunk_source chosen) (MAX_CONTEXT_CHARS cfg))))
     = Inr t"
    by blast
  ultimately show ?thesis using rows ch
    by (simp add: answer_query_def Let_def)
qed

lemma answer_stream_succeeds:
  assumes "1 \<le> TOP_K cfg" and "\<exists>emb\<in>set rows. usable emb"
    and "\<forall>p. \<not> snd (generateStreamWithOllama w p)"
  shows "\<exists>body. answer_stream cfg w q queryVector rows = Inr body
           \<and> ending body = Done (concat (deltas body))"
proof -
  from assms(2) have rows: "rows \<noteq> []" by auto
  from rankByCosine_returns_some[OF assms(1) vectorRows_nonempty[OF assms(2)]]
  obtain chosen where ch: "rankByCosine queryVector (vectorRows rows) (TOP_K cfg) = Inr chosen"
    by blast
  show ?thesis using rows ch assms(3)
    by (auto simp: answer_stream_def Let_def split: prod.splits) (metis snd_conv)
qed

text \<open>
  Claim C3, as amended. When the full-text prefilter throws or returns no candidate id,
  the query does not fail there: the handlers go on with the embeddings of the
  conversation's documents as candidates, as many as the fetch limit
  \<open>MAX_EMBEDDINGS_SEARCH\<close> lets through (all of them when they are no more than the
  limit); and with \<open>TOP_K \<ge> 1\<close> and a generator that returns, both handlers complete
  successfully whenever at least one usable embedding is among the fetched rows.
\<close>

theorem prefilter_fallback_completes:
  assumes "reaches_retrieval w req queryVector"
    and "fts5_query w (fts_escape (question req)) (conversationId req) (PREFILTER_LIMIT cfg)
           = None
       \<or> fts5_query w (fts_escape (question req)) (conversationId req) (PREFILTER_LIMIT cfg)
           = Some []"
  shows "fetch_embeddings cfg w (conversationId req)
             (prefilter cfg w (question req) (conversationId req))
           = take (MAX_EMBEDDINGS_SEARCH cfg)
               (filter (in_scope (conversationId req)) (embedding_table w))
     \<and> (length (filter (in_scope (conversationId req)) (embedding_table w))
            \<le> MAX_EMBEDDINGS_SEARCH cfg
          \<longrightarrow> fetch_embeddings cfg w (conversationId req)
                 (prefilter cfg w (question req) (conversationId req))
               = filter (in_scope (conversationId req)) (embedding_table w))
     \<and> (1 \<le> TOP_K cfg
          \<and> (\<exists>emb \<in> set (take (MAX_EMBEDDINGS_SEARCH cfg)
                              (filter (in_scope (conversationId req)) (embedding_table w))).
                usable emb)
          \<and> (\<forall>p. \<exists>t. generateWithOllama w p = Inr t)
          \<and> (\<forall>p. \<not> snd (generateStreamWithOllama w p))
          \<longrightarrow> (\<exists>ans. POST_query cfg w req = Inr ans)
            \<and> (\<exists>body. POST_query_stream cfg w req = Inr body
                  \<and> ending body = Done (concat (deltas body))))"
proof (intro conjI impI)
  show f: "fetch_embeddings cfg w (conversationId req)
             (prefilter cfg w (question req) (conversationId req))
           = take (MAX_EMBEDDINGS_SEARCH cfg)
               (filter (in_scope (conversationId req)) (embedding_table w))"
    by (rule fetch_fallback[OF assms(2)])
  {
    assume "length (filter (in_scope (conversationId req)) (embedding_table w))
              \<le> MAX_EMBEDDINGS_SEARCH cfg"
    with f show "fetch_embeddings cfg w (conversationId req)
                 (prefilter cfg w (question req) (conversationId req))
               = filter (in_scope (conversationId req)) (embedding_table w)"
      by simp
  }
  {
    assume a: "1 \<le> TOP_K cfg
          \<and> (\<exists>emb \<in> set (take (MAX_EMBEDDINGS_SEARCH cfg)
                              (filter (in_scope (conversationId req)) (embedding_table w))).
                usable emb)
          \<and> (\<forall>p. \<exists>t. generateWithOllama w p = Inr t)
          \<and> (\<forall>p. \<not> snd (generateStreamWithOllama w p))"
    show "\<exists>ans. POST_query cfg w req = Inr ans"
      unfolding POST_query_def retrieve_reached[OF assms(1)] f
      using a by (intro answer_query_succeeds) auto
    show "\<exists>body. POST_query_stream cfg w req = Inr body
                  \<and> ending body = Done (concat (deltas body))"
      unfolding POST_query_stream_def retrieve_reached[OF assms(1)] f
      using a by (intro answer_stream_succeeds) auto
  }
qed

lemma example_reaches:
  "reaches_retrieval (example_world table) example_request [Fin 1, Fin 0]"
  by (simp add: reaches_retrieval_def example_world_def example_request_def trim_def is_ws_def)

theorem prefilter_fallback_completes_witness:
  "reaches_retrieval (example_world [example_row 1 (JsonArray [Fin 1, Fin 0])]) example_request [Fin 1, Fin 0]
   \<and> fts5_query (example_world [example_row 1 (JsonArray [Fin 1, Fin 0])])
         (fts_escape (question example_request)) (conversationId example_request)
         (PREFILTER_LIMIT default_config) = None
   \<and> 1 \<le> TOP_K default_config
   \<and> usable (example_row 1 (JsonArray [Fin 1, Fin 0]))
   \<and> fetch_embeddings default_config (example_world [example_row 1 (JsonArray [Fin 1, Fin 0])])
         (conversationId example_request)
         (prefilter default_config (example_world [example_row 1 (JsonArray [Fin 1, Fin 0])])
            (question example_request) (conversationId example_request))
       = [example_row 1 (JsonArray [Fin 1, Fin 0])]
   \<and> (\<exists>ans. POST_query default_config (example_world [example_row 1 (JsonArray [Fin 1, Fin 0])])
                example_request = Inr ans)
   \<and> (\<exists>body. POST_query_stream default_config
                  (example_world [example_row 1 (JsonArray [Fin 1, Fin 0])]) example_request = Inr body
           \<and> ending body = Done (concat (deltas body)))"
proof -
  let ?w = "example_world [example_row 1 (JsonArray [Fin 1, Fin 0])]"
  have reach: "reaches_retrieval ?w example_request [Fin 1, Fin 0]"
    by (rule example_reaches)
  have fts: "fts5_query ?w (fts_escape (question example_request))
      (conversationId example_request) (PREFILTER_LIMIT default_config) = None"
    by (simp add: example_world_def)
  have k: "1 \<le> TOP_K default_config"
    by (simp add: default_config_def)
  have u: "usable (example_row 1 (JsonArray [Fin 1, Fin 0]))"
    by (simp add: usable_def example_row_def)
  have scope: "filter (in_scope (conversationId example_request)) (embedding_table ?w)
      = [example_row 1 (JsonArray [Fin 1, Fin 0])]"
    by (simp add: example_world_def example_request_def example_row_def in_scope_def)
  have cap: "take (MAX_EMBEDDINGS_SEARCH default_config) [example_row 1 (JsonArray [Fin 1, Fin 0])]
      = [example_row 1 (JsonArray [Fin 1, Fin 0])]"
    by (simp add: default_config_def)
  have gen: "\<forall>p. \<exists>t. generateWithOllama ?w p = Inr t"
    and str: "\<forall>p. \<not> snd (generateStreamWithOllama ?w p)"
    by (simp_all add: example_world_def)
  from prefilter_fallback_completes [OF reach disjI1 [OF fts]]
  show ?thesis
    using reach fts k u gen str by (simp add: scope cap)
qed

text \<open>
  The claim as it was stated promises success whenever one valid embedding exists in
  scope. Under the default configuration the fetch stops at 1000 rows: with 1000 rows of
  empty vectors stored before the one valid row, the full-text query throwing and a
  generator that answers, the valid row is in scope, is never fetched, and the query ends
  with status 422.
\<close>

theorem prefilter_fallback_capped_counterexample:
  "fts5_query
      (example_world (unusable_rows 1000 @ [example_row 1000 (JsonArray [Fin 1, Fin 0])]))
      (fts_escape (question example_request)) (conversationId example_request)
      (PREFILTER_LIMIT default_config) = None
   \<and> usable (example_row 1000 (JsonArray [Fin 1, Fin 0]))
   \<and> in_scope (conversationId example_request) (example_row 1000 (JsonArray [Fin 1, Fin 0]))
   \<and> example_row 1000 (JsonArray [Fin 1, Fin 0])
       \<in> set (embedding_table
               (example_world (unusable_rows 1000 @ [example_row 1000 (JsonArray [Fin 1, Fin 0])])))
   \<and> POST_query default_config
        (example_world (unusable_rows 1000 @ [example_row 1000 (JsonArray [Fin 1, Fin 0])]))
        example_request = Inl NoContextBuilt
   \<and> status NoContextBuilt = 422"
proof -
  let ?good = "example_row 1000 (JsonArray [Fin 1, Fin 0])"
  let ?w = "example_world (unusable_rows 1000 @ [?good])"
  have scope: "filter (in_scope 1) (unusable_rows 1000) = unusable_rows 1000"
    by (simp add: unusable_rows_def in_scope_def example_row_def filter_map comp_def)
  have len: "length (unusable_rows 1000) = 1000"
    by (simp add: unusable_rows_def)
  have fetched: "fetch_embeddings default_config ?w (conversationId example_request)
      (prefilter default_config ?w (question example_request) (conversationId example_request))
      = unusable_rows 1000"
    by (simp add: fetch_embeddings_def prefilter_def example_world_def example_request_def
        default_config_def in_scope_def[abs_def, symmetric] scope len)
  have rows: "vectorRows (unusable_rows 1000) = []"
    by (simp add: vectorRows_def unusable_rows_def usable_def example_row_def filter_map
        comp_def)
  have nonempty: "unusable_rows 1000 \<noteq> []"
    using len by auto
  have "POST_query default_config ?w example_request = Inl NoContextBuilt"
    unfolding POST_query_def retrieve_reached[OF example_reaches] fetched
    using nonempty by (simp add: answer_query_def rows rankByCosine_def buildContext_def)
  moreover have "usable ?good" "in_scope (conversationId example_request) ?good"
    by (simp_all add: usable_def in_scope_def example_row_def example_request_def)
  moreover have "?good \<in> set (embedding_table ?w)"
    by (simp add: example_world_def)
  moreover have "fts5_query ?w (fts_escape (question example_request))
      (conversationId example_request) (PREFILTER_LIMIT default_config) = None"
    by (simp add: example_world_def)
  ultimately show ?thesis by simp
qed

section \<open>Retrieval orchestrator: the terminal errors of the FetchVectors stage\<close>

lemma echo_reaches: "reaches_retrieval (echo_world table) example_request [Fin 1, Fin 0]"
  by (simp add: reaches_retrieval_def echo_world_def example_request_def trim_def is_ws_def)

lemma echo_fetch:
  "fetch_embeddings default_config (echo_world table) (conversationId example_request)
     (prefilter default_config (echo_world table) (question example_request)
        (conversationId example_request))
   = take 1000 (filter (in_scope 1) table)"
  by (simp add: fetch_embeddings_def prefilter_def echo_world_def example_request_def
      default_config_def)

text \<open>
  Both handlers filter the fetched rows alike, and both end in the "no embedded content"
  error when no row is fetched at all: the check \<open>embeddings.length === 0\<close> is made on the
  fetched rows, before the filter. When rows are fetched and none is usable, the
  single-completion handler ends in the "no context could be built" error.
\<close>

lemma vectorRows_vectors_nonempty: "item \<in> set (vectorRows rows) \<Longrightarrow> vector item \<noteq> []"
  by (auto simp: vectorRows_def usable_def to_item_def split: stored_vector.splits)

lemma no_rows_fetched_error:
  assumes "reaches_retrieval w req queryVector"
    and "fetch_embeddings cfg w (conversationId req)
           (prefilter cfg w (question req) (conversationId req)) = []"
  shows "POST_query cfg w req = Inl NoEmbeddedContent"
    and "POST_query_stream cfg w req = Inl NoEmbeddedContent"
  using assms(2)
  by (simp_all add: POST_query_def POST_query_stream_def retrieve_reached[OF assms(1)]
      answer_query_def answer_stream_def)

lemma no_usable_rows_query_error:
  assumes "reaches_retrieval w req queryVector"
    and "fetch_embeddings cfg w (conversationId req)
           (prefilter cfg w (question req) (conversationId req)) \<noteq> []"
    and "vectorRows (fetch_embeddings cfg w (conversationId req)
                       (prefilter cfg w (question req) (conversationId req))) = []"
  shows "POST_query cfg w req = Inl NoContextBuilt"
  using assms(2,3)
  by (simp add: POST_query_def retrieve_reached[OF assms(1)] answer_query_def
      rankByCosine_def buildContext_def)

text \<open>
  Claim C4. In the FetchVectors stage, malformed and empty candidate vectors are filtered
  out before ranking, and if zero usable embeddings remain after that filtering the query
  ends in a terminal error rather than proceeding. The streaming handler proceeds. Its
  only check is on the fetched rows, before the filter, and unlike \<open>/api/query\<close> it has no
  check of the built context. With one fetched row whose stored vector is the empty
  array, the filter leaves nothing, nothing is ranked, the context is empty, and
  \<open>/api/query-stream\<close> calls the generator with a prompt around the empty context and
  streams its output with an empty source list, where \<open>/api/query\<close> on the same input
  ends in the terminal error "no context could be built", status 422. The generator
  here gives back its prompt, so that the deltas show what it was handed.
\<close>

theorem stream_proceeds_without_usable_vectors:
  "fetch_embeddings default_config (echo_world [example_row 1 (JsonArray [])])
      (conversationId example_request)
      (prefilter default_config (echo_world [example_row 1 (JsonArray [])])
         (question example_request) (conversationId example_request))
     = [example_row 1 (JsonArray [])]
   \<and> vectorRows [example_row 1 (JsonArray [])] = []
   \<and> POST_query_stream default_config (echo_world [example_row 1 (JsonArray [])])
       example_request
     = Inr \<lparr>stream_sources = [],
            deltas = [stream_prompt ''what?'' []],
            ending = Done (stream_prompt ''what?'' [])\<rparr>
   \<and> POST_query default_config (echo_world [example_row 1 (JsonArray [])]) example_request
     = Inl NoContextBuilt
   \<and> status NoContextBuilt = 422"
proof -
  let ?w = "echo_world [example_row 1 (JsonArray [])]"
  have fetched: "fetch_embeddings default_config ?w (conversationId example_request)
      (prefilter default_config ?w (question example_request) (conversationId example_request))
      = [example_row 1 (JsonArray [])]"
    by (simp add: echo_fetch in_scope_def example_row_def)
  have rows: "vectorRows [example_row 1 (JsonArray [])] = []"
    by (simp add: vectorRows_def usable_def example_row_def)
  have stream: "POST_query_stream default_config ?w example_request
      = Inr \<lparr>stream_sources = [], deltas = [stream_prompt ''what?'' []],
             ending = Done (stream_prompt ''what?'' [])\<rparr>"
    unfolding POST_query_stream_def retrieve_reached[OF echo_reaches] fetched
    by (simp add: answer_stream_def rows rankByCosine_def buildContext_def
        sourcesWithDocId_def echo_world_def example_request_def Let_def)
  have query: "POST_query default_config ?w example_request = Inl NoContextBuilt"
    unfolding POST_query_def retrieve_reached[OF echo_reaches] fetched
    by (simp add: answer_query_def rows rankByCosine_def buildContext_def)
  from fetched rows stream query show ?thesis by simp
qed

section \<open>Retrieval orchestrator: the prompt of the two handlers\<close>

lemma rank_one:
  "rankByCosine [Fin 1, Fin 0] (vectorRows [example_row 1 (JsonArray [Fin 1, Fin 0])]) (TOP_K default_config)
     = Inr [with_similarity (to_item (example_row 1 (JsonArray [Fin 1, Fin 0]))) (Fin 1)]"
  by (simp add: rankByCosine_item_loop vectorRows_def usable_def example_row_def to_item_def
      heap_insert_def item_similarity_def query_norm_def sum_products_def sort_desc_def
      default_config_def js_gt_def exact_doubles)

lemma build_one:
  "buildContext [to_chunk_source (with_similarity (to_item (example_row 1 (JsonArray [Fin 1, Fin 0]))) (Fin 1))]
     (MAX_CONTEXT_CHARS default_config)
   = \<lparr>contextText = render_chunk (example_chunk 1), sources = [(''a.pdf'', 1)]\<rparr>"
  by (simp add: buildContext_def track_source_def to_chunk_source_def with_similarity_def
      to_item_def example_row_def example_chunk_def Let_def)

lemma stream_handler_echo:
  "POST_query_stream default_config (echo_world [example_row 1 (JsonArray [Fin 1, Fin 0])])
     example_request
   = Inr \<lparr>stream_sources =
            [\<lparr>out_documentId = 1, out_chunkId = 1, out_filename = ''a.pdf'',
              out_chunkIndex = 1\<rparr>],
          deltas = [buildPrompt (render_chunk (example_chunk 1)) ''what?''],
          ending = Done (buildPrompt (render_chunk (example_chunk 1)) ''what?'')\<rparr>"
proof -
  have fetched: "fetch_embeddings default_config (echo_world [example_row 1 (JsonArray [Fin 1, Fin 0])])
      (conversationId example_request)
      (prefilter default_config (echo_world [example_row 1 (JsonArray [Fin 1, Fin 0])])
         (question example_request) (conversationId example_request))
      = [example_row 1 (JsonArray [Fin 1, Fin 0])]"
    by (simp add: echo_fetch in_scope_def example_row_def)
  show ?thesis
    unfolding POST_query_stream_def retrieve_reached[OF echo_reaches] fetched
    apply (simp add: answer_stream_def rank_one build_one stream_prompt_def example_request_def)
    apply (simp add: sourcesWithDocId_def echo_world_def with_similarity_def to_item_def
        example_row_def)
    done
qed

lemma query_handler_echo:
  "POST_query default_config (echo_world [example_row 1 (JsonArray [Fin 1, Fin 0])]) example_request
   = Inr \<lparr>answer = trim (buildPrompt ''what?'' (render_chunk (example_chunk 1))),
          answer_sources =
            [\<lparr>out_documentId = 1, out_chunkId = 1, out_filename = ''a.pdf'',
              out_chunkIndex = 1\<rparr>],
          used_k = 1\<rparr>"
proof -
  have fetched: "fetch_embeddings default_config (echo_world [example_row 1 (JsonArray [Fin 1, Fin 0])])
      (conversationId example_request)
      (prefilter default_config (echo_world [example_row 1 (JsonArray [Fin 1, Fin 0])])
         (question example_request) (conversationId example_request))
      = [example_row 1 (JsonArray [Fin 1, Fin 0])]"
    by (simp add: echo_fetch in_scope_def example_row_def)
  show ?thesis
    unfolding POST_query_def retrieve_reached[OF echo_reaches] fetched
    apply (simp add: answer_query_def rank_one build_one query_prompt_def example_request_def
        render_chunk_nonempty)
    apply (simp add: sourcesWithDocId_def echo_world_def with_similarity_def to_item_def
        example_row_def)
    done
qed

text \<open>
  Claim C8. Both variants hand the generator the same prompt: the same function of
  (question, context), with the question in the QUESTION slot and the context in the
  CONTEXT slot. The single-completion handler calls \<open>buildPrompt(question, context)\<close>; the
  streaming handler calls \<open>buildPrompt(context, question)\<close>, against the signature
  \<open>buildPrompt(question, context)\<close>. For the question \<open>"what?"\<close> over one retrieved chunk,
  with a generator that gives back its prompt, the streaming handler's prompt has the
  chunk in the QUESTION slot and \<open>"what?"\<close> in the CONTEXT slot, and differs from the
  prompt of the single-completion handler.
\<close>

theorem stream_prompt_swaps_slots:
  "POST_query_stream default_config (echo_world [example_row 1 (JsonArray [Fin 1, Fin 0])])
     example_request
     = Inr \<lparr>stream_sources =
              [\<lparr>out_documentId = 1, out_chunkId = 1, out_filename = ''a.pdf'',
                out_chunkIndex = 1\<rparr>],
            deltas = [buildPrompt (render_chunk (example_chunk 1)) ''what?''],
            ending = Done (buildPrompt (render_chunk (example_chunk 1)) ''what?'')\<rparr>
   \<and> POST_query default_config (echo_world [example_row 1 (JsonArray [Fin 1, Fin 0])])
       example_request
     = Inr \<lparr>answer = trim (buildPrompt ''what?'' (render_chunk (example_chunk 1))),
            answer_sources =
              [\<lparr>out_documentId = 1, out_chunkId = 1, out_filename = ''a.pdf'',
                out_chunkIndex = 1\<rparr>],
            used_k = 1\<rparr>
   \<and> stream_prompt ''what?'' (render_chunk (example_chunk 1))
     = buildPrompt (render_chunk (example_chunk 1)) ''what?''
   \<and> query_prompt ''what?'' (render_chunk (example_chunk 1))
     = buildPrompt ''what?'' (render_chunk (example_chunk 1))
   \<and> stream_prompt ''what?'' (render_chunk (example_chunk 1))
     \<noteq> query_prompt ''what?'' (render_chunk (example_chunk 1))"
proof -
  have "buildPrompt (render_chunk (example_chunk 1)) ''what?''
      \<noteq> buildPrompt ''what?'' (render_chunk (example_chunk 1))"
    by (simp add: buildPrompt_def render_chunk_def NL_def)
  then show ?thesis
    by (simp add: stream_handler_echo query_handler_echo stream_prompt_def query_prompt_def)
qed

end
